theory Spec2Isabelle
  imports Main "HOL-Library.Word" "HOL-Library.Multiset"
begin

section \<open>The tile quadtree node of csp-lod-bodies\<close>

text \<open>
  The development embeds \<^verbatim>\<open>plugins/csp-lod-bodies/src/TileNode.cpp\<close> and, from
  \<^verbatim>\<open>TreeManager.hpp\<close> and the specification, the merge and prune phases of the
  tree manager. A
  \<^verbatim>\<open>TileNode\<close> owns its tile and its four children through
  \<^verbatim>\<open>std::unique_ptr\<close> and keeps a raw pointer to its parent, so the nodes live
  in an explicit store and every member function that writes takes the store and the
  address of \<^verbatim>\<open>this\<close> and returns the new store.
\<close>

subsection \<open>Failures\<close>

text \<open>
  \<^verbatim>\<open>OutOfRange\<close> is the \<^verbatim>\<open>std::out_of_range\<close> thrown by
  \<^verbatim>\<open>std::array::at\<close>; \<^verbatim>\<open>NullPointer\<close> is the dereference of an empty
  \<^verbatim>\<open>unique_ptr\<close>; \<^verbatim>\<open>Dangling\<close> is the use of an address that holds no
  living node (both undefined behaviour in C++).
\<close>

datatype error = OutOfRange | NullPointer | Dangling

definition ebind :: "error + 'a \<Rightarrow> ('a \<Rightarrow> error + 'b) \<Rightarrow> error + 'b" where
  "ebind m f = (case m of Inl e \<Rightarrow> Inl e | Inr x \<Rightarrow> f x)"

subsection \<open>Data\<close>

text \<open>
  Modelled from the spec: \<^verbatim>\<open>TileId.hpp\<close> is not among the sources; a tile id is
  a level and a 64-bit patch index.
\<close>

record TileId =
  level :: int
  patchIdx :: "64 word"

type_synonym type_info = string

text \<open>
  Modelled from the spec: \<^verbatim>\<open>TileBase.hpp\<close> is not among the sources; a tile is
  modelled by what its four getters called from \<^verbatim>\<open>TileNode.cpp\<close> return.
\<close>

record TileBase =
  tb_getLevel :: int
  tb_getPatchIdx :: "64 word"
  tb_getTileId :: TileId
  tb_getTypeId :: type_info

text \<open>\<^verbatim>\<open>std::array<T, 4>\<close>: four elements, the size is part of the type.\<close>

datatype 'a array4 = Array4 'a 'a 'a 'a

text \<open>
  \<^verbatim>\<open>at(i)\<close> with an \<^verbatim>\<open>int\<close> argument: the index is converted to
  \<^verbatim>\<open>size_t\<close>, so a negative one becomes a value far above 3 and is rejected as
  any other index that is not below the size.
\<close>

fun at4 :: "'a array4 \<Rightarrow> int \<Rightarrow> error + 'a" where
  "at4 (Array4 a b c d) i =
     (if i = 0 then Inr a else if i = 1 then Inr b
      else if i = 2 then Inr c else if i = 3 then Inr d
      else Inl OutOfRange)"

text \<open>Assignment through the reference that \<^verbatim>\<open>at(i)\<close> returns.\<close>

fun put4 :: "'a array4 \<Rightarrow> int \<Rightarrow> 'a \<Rightarrow> error + 'a array4" where
  "put4 (Array4 a b c d) i v =
     (if i = 0 then Inr (Array4 v b c d) else if i = 1 then Inr (Array4 a v c d)
      else if i = 2 then Inr (Array4 a b v d) else if i = 3 then Inr (Array4 a b c v)
      else Inl OutOfRange)"

type_synonym addr = nat

text \<open>
  Modelled from the spec: \<^verbatim>\<open>TileNode.hpp\<close> is not among the sources; the members
  are the three that \<^verbatim>\<open>TileNode.cpp\<close> uses: the owned tile, the four owned
  children and the parent back-reference. \<^verbatim>\<open>None\<close> is the null pointer.
\<close>

record TileNode =
  mTile :: "TileBase option"
  mChildren :: "addr option array4"
  mParent :: "addr option"

text \<open>
  The store: the node living at address \<^verbatim>\<open>a\<close> is the entry \<^verbatim>\<open>a\<close> of the
  list, \<^verbatim>\<open>None\<close> once the node has been deleted.
\<close>

type_synonym heap = "TileNode option list"

definition lookup :: "heap \<Rightarrow> addr \<Rightarrow> TileNode option" where
  "lookup h a = (if a < length h then h ! a else None)"

definition deref :: "heap \<Rightarrow> addr \<Rightarrow> error + TileNode" where
  "deref h a = (case lookup h a of None \<Rightarrow> Inl Dangling | Some n \<Rightarrow> Inr n)"

definition store :: "heap \<Rightarrow> addr \<Rightarrow> TileNode \<Rightarrow> heap" where
  "store h a n = h[a := Some n]"

definition free :: "heap \<Rightarrow> addr \<Rightarrow> heap" where
  "free h a = h[a := None]"

definition live :: "heap \<Rightarrow> nat" where
  "live h = length (filter (\<lambda>x. x \<noteq> None) h)"

text \<open>
  The constructors \<^verbatim>\<open>TileNode(TileBase*)\<close> and
  \<^verbatim>\<open>TileNode(std::unique_ptr<TileBase>&&)\<close>: the tile is taken over, the parent is
  null and the four children are default-constructed, hence empty.
\<close>

definition newTileNode :: "TileBase option \<Rightarrow> TileNode" where
  "newTileNode tile = \<lparr>mTile = tile, mChildren = Array4 None None None None, mParent = None\<rparr>"

subsection \<open>Tile accessors\<close>

text \<open>\<^verbatim>\<open>mTile->f()\<close>: the tile pointer is dereferenced without a check.\<close>

definition tile_call :: "TileNode \<Rightarrow> (TileBase \<Rightarrow> 'a) \<Rightarrow> error + 'a" where
  "tile_call n f = (case mTile n of None \<Rightarrow> Inl NullPointer | Some t \<Rightarrow> Inr (f t))"

definition getLevel :: "TileNode \<Rightarrow> error + int" where
  "getLevel n = tile_call n tb_getLevel"

definition getPatchIdx :: "TileNode \<Rightarrow> error + 64 word" where
  "getPatchIdx n = tile_call n tb_getPatchIdx"

definition getTileId :: "TileNode \<Rightarrow> error + TileId" where
  "getTileId n = tile_call n tb_getTileId"

definition getTileTypeId :: "TileNode \<Rightarrow> error + type_info" where
  "getTileTypeId n = tile_call n tb_getTypeId"

definition getTile :: "TileNode \<Rightarrow> TileBase option" where
  "getTile n = mTile n"

text \<open>\<^verbatim>\<open>releaseTile\<close>: hands the tile out and leaves the node without one.\<close>

definition releaseTile :: "heap \<Rightarrow> addr \<Rightarrow> error + (TileBase option \<times> heap)" where
  "releaseTile h this =
     ebind (deref h this) (\<lambda>n. Inr (mTile n, store h this (n\<lparr>mTile := None\<rparr>)))"

text \<open>\<^verbatim>\<open>setTile\<close>: the move assignment destroys the tile held before.\<close>

definition setTile :: "heap \<Rightarrow> addr \<Rightarrow> TileBase option \<Rightarrow> error + heap" where
  "setTile h this tile =
     ebind (deref h this) (\<lambda>n. Inr (store h this (n\<lparr>mTile := tile\<rparr>)))"

subsection \<open>Children and parent\<close>

definition getChild :: "TileNode \<Rightarrow> int \<Rightarrow> error + addr option" where
  "getChild n childIdx = at4 (mChildren n) childIdx"

definition getParent :: "TileNode \<Rightarrow> addr option" where
  "getParent n = mParent n"

definition setParent :: "heap \<Rightarrow> addr \<Rightarrow> addr option \<Rightarrow> error + heap" where
  "setParent h this parent =
     ebind (deref h this) (\<lambda>n. Inr (store h this (n\<lparr>mParent := parent\<rparr>)))"

text \<open>
  \<^verbatim>\<open>if (mChildren.at(childIdx)) mChildren.at(childIdx)->setParent(p)\<close>, the
  statement that \<^verbatim>\<open>releaseChild\<close> and \<^verbatim>\<open>setChild\<close> share.
\<close>

definition setParentOfChild :: "heap \<Rightarrow> addr \<Rightarrow> int \<Rightarrow> addr option \<Rightarrow> error + heap" where
  "setParentOfChild h this childIdx p =
     ebind (deref h this) (\<lambda>n.
     ebind (at4 (mChildren n) childIdx) (\<lambda>c.
       case c of None \<Rightarrow> Inr h | Some ca \<Rightarrow> setParent h ca p))"

text \<open>\<^verbatim>\<open>mChildren.at(childIdx).release()\<close>: the slot is emptied, nothing is deleted.\<close>

definition releaseSlot :: "heap \<Rightarrow> addr \<Rightarrow> int \<Rightarrow> error + (addr option \<times> heap)" where
  "releaseSlot h this childIdx =
     ebind (deref h this) (\<lambda>n.
     ebind (at4 (mChildren n) childIdx) (\<lambda>c.
     ebind (put4 (mChildren n) childIdx None) (\<lambda>cs.
       Inr (c, store h this (n\<lparr>mChildren := cs\<rparr>)))))"

definition releaseChild :: "heap \<Rightarrow> addr \<Rightarrow> int \<Rightarrow> error + (addr option \<times> heap)" where
  "releaseChild h this childIdx =
     ebind (setParentOfChild h this childIdx None) (\<lambda>h1. releaseSlot h1 this childIdx)"

text \<open>
  The children a node owns, in the order in which the destructor of the array destroys
  them (last element first).
\<close>

definition owned :: "TileNode \<Rightarrow> addr list" where
  "owned n = (case mChildren n of Array4 a b c d \<Rightarrow>
     List.map_filter (\<lambda>x. x) [d, c, b, a])"

lemma live_free: "lookup h a = Some n \<Longrightarrow> live (free h a) < live h"
proof (induction h arbitrary: a)
  case Nil
  then show ?case by (simp add: lookup_def)
next
  case (Cons x h)
  show ?case
  proof (cases a)
    case 0
    with Cons.prems show ?thesis by (simp add: lookup_def free_def live_def)
  next
    case (Suc b)
    with Cons.prems have "lookup h b = Some n"
      by (simp add: lookup_def split: if_splits)
    from Cons.IH [OF this] Suc show ?thesis by (simp add: free_def live_def)
  qed
qed

text \<open>
  \<^verbatim>\<open>delete\<close> of the nodes on a work list: the destructor of a node deletes the
  children the node owns, which delete theirs. Deleting an address that holds no living
  node (a second time, or a pointer that dangles) is undefined behaviour.
\<close>

function destroy :: "addr list \<Rightarrow> heap \<Rightarrow> error + heap" where
  "destroy [] h = Inr h"
| "destroy (a # as) h =
     (case lookup h a of
        None \<Rightarrow> Inl Dangling
      | Some n \<Rightarrow> destroy (owned n @ as) (free h a))"
  by pat_completeness auto
termination
  by (relation "measure (\<lambda>(ws, h). live h)") (auto simp: live_free)

text \<open>
  \<^verbatim>\<open>mChildren.at(childIdx).reset(child)\<close>: the slot takes the new pointer, then
  the node it held before is deleted.
\<close>

definition resetSlot :: "heap \<Rightarrow> addr \<Rightarrow> int \<Rightarrow> addr option \<Rightarrow> error + heap" where
  "resetSlot h this childIdx child =
     ebind (deref h this) (\<lambda>n.
     ebind (at4 (mChildren n) childIdx) (\<lambda>old.
     ebind (put4 (mChildren n) childIdx child) (\<lambda>cs.
       destroy (case old of None \<Rightarrow> [] | Some oa \<Rightarrow> [oa])
               (store h this (n\<lparr>mChildren := cs\<rparr>)))))"

definition setChild :: "heap \<Rightarrow> addr \<Rightarrow> int \<Rightarrow> addr option \<Rightarrow> error + heap" where
  "setChild h this childIdx child =
     ebind (setParentOfChild h this childIdx None) (\<lambda>h1.
     ebind (resetSlot h1 this childIdx child) (\<lambda>h2.
       setParentOfChild h2 this childIdx (Some this)))"

text \<open>\<^verbatim>\<open>isRefined\<close>: the four reads, from left to right, stopping at the first null.\<close>

definition isRefined :: "TileNode \<Rightarrow> error + bool" where
  "isRefined node =
     ebind (getChild node 0) (\<lambda>c0. if c0 = None then Inr False else
     ebind (getChild node 1) (\<lambda>c1. if c1 = None then Inr False else
     ebind (getChild node 2) (\<lambda>c2. if c2 = None then Inr False else
     ebind (getChild node 3) (\<lambda>c3. Inr (c3 \<noteq> None)))))"


section \<open>The tree manager\<close>

text \<open>
  Of the tree manager the sources hold \<^verbatim>\<open>TreeManager.hpp\<close> only: the members,
  the nested \<^verbatim>\<open>NodeAge\<close> and the documentation of \<^verbatim>\<open>merge\<close> and
  \<^verbatim>\<open>prune\<close>. The members below are those of the header that the two phases use;
  the store of the nodes is carried along as \<^verbatim>\<open>mem\<close>.
\<close>

record NodeAge =
  mNode :: addr
  mFrame :: int

text \<open>
  Modelled from the spec: the entries that the \<^verbatim>\<open>AgeStore\<close> points to. The header
  declares them as pairs of a tile id and a node of the \<^verbatim>\<open>RenderDataMap\<close>; the age
  of the node (frames since its last use) is kept with the entry.
\<close>

record AgeEntry =
  ae_id :: TileId
  ae_node :: addr
  ae_age :: nat

text \<open>
  Modelled from the spec: \<^verbatim>\<open>PlanetParameters\<close> is only declared in the header; the
  configuration is the age threshold, the target occupancy and the grace period of the
  specification.
\<close>

record PlanetParameters =
  pruneAge :: nat
  targetOccupancy :: nat
  graceFrames :: int

text \<open>
  Modelled from the spec: \<^verbatim>\<open>TileQuadTree.hpp\<close> is not among the sources; the tree
  is the holder of the root nodes, one per patch index of level 0.
\<close>

record TreeManager =
  mParams :: PlanetParameters
  mRdMap :: "TileId \<rightharpoonup> addr"
  mAgeStore :: "AgeEntry list"
  mTree :: "64 word \<rightharpoonup> addr"
  mUnmergedNodes :: "NodeAge list"
  mLoadedNodes :: "addr list"
  mFrameCount :: int
  mem :: heap

subsection \<open>Prune\<close>




subsection \<open>Merge\<close>

text \<open>
  Modelled from the spec: the callback \<^verbatim>\<open>TreeManager::onNodeLoaded\<close> is only
  declared in the header; it pushes the loaded node onto the queue of loaded nodes.
\<close>

definition onNodeLoaded :: "TreeManager \<Rightarrow> addr \<Rightarrow> TreeManager" where
  "onNodeLoaded tm node = tm\<lparr>mLoadedNodes := mLoadedNodes tm @ [node]\<rparr>"

definition setFrameCount :: "TreeManager \<Rightarrow> int \<Rightarrow> TreeManager" where
  "setFrameCount tm frameCount = tm\<lparr>mFrameCount := frameCount\<rparr>"

text \<open>
  Modelled from the spec: the tile hierarchy of the merge phase: the parent of a tile is
  one level up with the patch index shifted right by the two bits that number the
  quadrant, and these two bits are the child slot.
\<close>

definition parentTileId :: "TileId \<Rightarrow> TileId" where
  "parentTileId t = \<lparr>level = level t - 1, patchIdx = drop_bit 2 (patchIdx t)\<rparr>"

definition childIdxOf :: "TileId \<Rightarrow> int" where
  "childIdxOf t = uint (take_bit 2 (patchIdx t))"

datatype outcome = Inserted | DeferredAsUnmerged | DiscardedDuplicate

text \<open>
  Modelled from the spec: entering a node into the \<^verbatim>\<open>RenderDataMap\<close> and, with
  age 0, into the \<^verbatim>\<open>AgeStore\<close>. The registration of the tile with the GPU
  collaborator by \<^verbatim>\<open>onNodeInserted\<close> is not part of this model.
\<close>

definition registerNode :: "TreeManager \<Rightarrow> TileId \<Rightarrow> addr \<Rightarrow> TreeManager" where
  "registerNode tm tid node =
     tm\<lparr>mRdMap := (mRdMap tm)(tid \<mapsto> node),
        mAgeStore := mAgeStore tm @ [\<lparr>ae_id = tid, ae_node = node, ae_age = 0\<rparr>]\<rparr>"

text \<open>Modelled from the spec: a node that is not kept is deleted.\<close>

definition discardNode :: "TreeManager \<Rightarrow> addr \<Rightarrow> error + TreeManager" where
  "discardNode tm node = ebind (destroy [node] (mem tm)) (\<lambda>h. Inr (tm\<lparr>mem := h\<rparr>))"

text \<open>
  Modelled from the spec: the attempt to insert one loaded node, which
  \<^verbatim>\<open>TreeManager.cpp\<close> (not among the sources) implements. A node of level 0 becomes
  the root of its patch. Any other node looks for its parent in the
  \<^verbatim>\<open>RenderDataMap\<close>: with the parent present and the slot empty it is attached with
  \<^verbatim>\<open>setChild\<close> and registered; with the slot occupied it is discarded; with no
  parent it is deferred.
\<close>

definition insertNode :: "TreeManager \<Rightarrow> addr \<Rightarrow> error + (outcome \<times> TreeManager)" where
  "insertNode tm node =
     ebind (deref (mem tm) node) (\<lambda>n.
     ebind (getTileId n) (\<lambda>tid.
       if level tid = 0 then
         (case mTree tm (patchIdx tid) of
            None \<Rightarrow>
              Inr (Inserted,
                   registerNode (tm\<lparr>mTree := (mTree tm)(patchIdx tid \<mapsto> node)\<rparr>) tid node)
          | Some r \<Rightarrow> ebind (discardNode tm node) (\<lambda>tm'. Inr (DiscardedDuplicate, tm')))
       else
         (case mRdMap tm (parentTileId tid) of
            None \<Rightarrow> Inr (DeferredAsUnmerged, tm)
          | Some parent \<Rightarrow>
              ebind (deref (mem tm) parent) (\<lambda>pn.
              ebind (getChild pn (childIdxOf tid)) (\<lambda>slot.
                case slot of
                  None \<Rightarrow>
                    ebind (setChild (mem tm) parent (childIdxOf tid) (Some node)) (\<lambda>h.
                      Inr (Inserted, registerNode (tm\<lparr>mem := h\<rparr>) tid node))
                | Some other \<Rightarrow>
                    ebind (discardNode tm node) (\<lambda>tm'. Inr (DiscardedDuplicate, tm')))))))"

text \<open>
  Modelled from the spec: \<^verbatim>\<open>TreeManager::storeUnmerged\<close>, named in the header:
  a node that could not be inserted is kept with the frame in which it was loaded.
\<close>

definition storeUnmerged :: "TreeManager \<Rightarrow> addr \<Rightarrow> TreeManager" where
  "storeUnmerged tm node =
     tm\<lparr>mUnmergedNodes := mUnmergedNodes tm @ [\<lparr>mNode = node, mFrame = mFrameCount tm\<rparr>]\<rparr>"

text \<open>Modelled from the spec: the loop of the merge phase over the drained nodes.\<close>

fun mergeLoaded :: "addr list \<Rightarrow> TreeManager \<Rightarrow> error + TreeManager" where
  "mergeLoaded [] tm = Inr tm"
| "mergeLoaded (node # nodes) tm =
     ebind (insertNode tm node) (\<lambda>r.
       mergeLoaded nodes
         (if fst r = DeferredAsUnmerged then storeUnmerged (snd r) node else snd r))"

text \<open>
  Modelled from the spec: \<^verbatim>\<open>TreeManager::mergeUnmerged\<close>, named in the header: the
  nodes deferred by earlier merges are tried again; one that still cannot be inserted is
  kept while its grace period lasts and deleted once it has expired.
\<close>

fun mergeUnmerged :: "NodeAge list \<Rightarrow> TreeManager \<Rightarrow> error + TreeManager" where
  "mergeUnmerged [] tm = Inr tm"
| "mergeUnmerged (na # nas) tm =
     ebind (insertNode tm (mNode na)) (\<lambda>r.
       if fst r = DeferredAsUnmerged then
         (if graceFrames (mParams (snd r)) < mFrameCount (snd r) - mFrame na
          then ebind (discardNode (snd r) (mNode na)) (\<lambda>tm'. mergeUnmerged nas tm')
          else mergeUnmerged nas
                 ((snd r)\<lparr>mUnmergedNodes := mUnmergedNodes (snd r) @ [na]\<rparr>))
       else mergeUnmerged nas (snd r))"

text \<open>
  Modelled from the spec: the drain and merge phases of \<^verbatim>\<open>update\<close>, that is
  \<^verbatim>\<open>TreeManager::merge\<close>: the queue of loaded nodes is emptied, the drained nodes
  are merged in the order of their arrival, then the nodes left over by earlier merges
  are tried again.
\<close>

definition merge :: "TreeManager \<Rightarrow> error + TreeManager" where
  "merge tm =
     ebind (mergeLoaded (mLoadedNodes tm) (tm\<lparr>mLoadedNodes := [], mUnmergedNodes := []\<rparr>))
       (\<lambda>tm1. mergeUnmerged (mUnmergedNodes tm) tm1)"

text \<open>
  What happens to a tree manager: a tile source delivers a loaded node, or the owner
  sets the frame count and has \<^verbatim>\<open>update\<close> drain and merge.
\<close>

datatype event = Loaded addr | Update int

fun step :: "TreeManager \<Rightarrow> event \<Rightarrow> error + TreeManager" where
  "step tm (Loaded node) = Inr (onNodeLoaded tm node)"
| "step tm (Update frame) = merge (setFrameCount tm frame)"

fun run :: "TreeManager \<Rightarrow> event list \<Rightarrow> error + TreeManager" where
  "run tm [] = Inr tm"
| "run tm (e # es) = ebind (step tm e) (\<lambda>tm'. run tm' es)"

text \<open>
  Parent and child are both in the tree and linked: each is in the
  \<^verbatim>\<open>RenderDataMap\<close> under its tile id, the parent holds the child in the slot of
  the child's quadrant, and the back-reference of the child is the parent.
\<close>

definition linked :: "TreeManager \<Rightarrow> addr \<Rightarrow> addr \<Rightarrow> bool" where
  "linked tm parent child =
     (case (lookup (mem tm) parent, lookup (mem tm) child) of
        (Some pn, Some cn) \<Rightarrow>
          (case (getTileId pn, getTileId cn) of
             (Inr pid, Inr cid) \<Rightarrow>
               mRdMap tm pid = Some parent \<and> mRdMap tm cid = Some child \<and>
               pid = parentTileId cid \<and>
               getChild pn (childIdxOf cid) = Inr (Some child) \<and>
               getParent cn = Some parent
           | _ \<Rightarrow> False)
      | _ \<Rightarrow> False)"

text \<open>
  The place of a loaded node in the tree is free: a node of level 0 finds the root slot
  of its patch empty, any other node finds its parent in the \<^verbatim>\<open>RenderDataMap\<close>,
  alive and with the slot of its quadrant empty.
\<close>

definition mergeable :: "TreeManager \<Rightarrow> addr \<Rightarrow> bool" where
  "mergeable tm node =
     (case lookup (mem tm) node of
        None \<Rightarrow> False
      | Some n \<Rightarrow>
          (case getTileId n of
             Inl e \<Rightarrow> False
           | Inr tid \<Rightarrow>
               if level tid = 0 then mTree tm (patchIdx tid) = None
               else (case mRdMap tm (parentTileId tid) of
                       None \<Rightarrow> False
                     | Some g \<Rightarrow>
                         g \<noteq> node \<and>
                         (case lookup (mem tm) g of
                            None \<Rightarrow> False
                          | Some gn \<Rightarrow> getChild gn (childIdxOf tid) = Inr None))))"

section \<open>Back-references, reachability and sequences of operations\<close>

text \<open>The node \<^verbatim>\<open>pn\<close> has the address \<^verbatim>\<open>a\<close> in one of its four slots.\<close>

definition holds :: "TileNode \<Rightarrow> addr \<Rightarrow> bool" where
  "holds pn a = (getChild pn 0 = Inr (Some a) \<or> getChild pn 1 = Inr (Some a) \<or>
                 getChild pn 2 = Inr (Some a) \<or> getChild pn 3 = Inr (Some a))"

text \<open>
  The quadrant of a node is the child slot that the id of its tile gives; a node
  without a tile has none.
\<close>

definition ownQuadrant :: "TileNode \<Rightarrow> int \<Rightarrow> bool" where
  "ownQuadrant n q = (case getTileId n of Inl e \<Rightarrow> False | Inr tid \<Rightarrow> q = childIdxOf tid)"

text \<open>
  The back-reference of the node at \<^verbatim>\<open>a\<close> is sound: if its parent pointer is not
  null, the parent is alive and \<^verbatim>\<open>getParent()->getChild(q)\<close> is the node itself
  for \<^verbatim>\<open>q\<close> the node's own quadrant.
\<close>

definition backref_ok :: "heap \<Rightarrow> addr \<Rightarrow> bool" where
  "backref_ok h a =
     (case lookup h a of
        None \<Rightarrow> True
      | Some n \<Rightarrow>
          (case getParent n of
             None \<Rightarrow> True
           | Some p \<Rightarrow>
               (case lookup h p of
                  None \<Rightarrow> False
                | Some pn \<Rightarrow>
                    (case getTileId n of
                       Inl e \<Rightarrow> False
                     | Inr tid \<Rightarrow> getChild pn (childIdxOf tid) = Inr (Some a)))))"

definition backrefs :: "heap \<Rightarrow> bool" where
  "backrefs h = list_all (backref_ok h) [0..<length h]"

text \<open>
  The weaker property that \<^verbatim>\<open>setChild\<close> and \<^verbatim>\<open>releaseChild\<close> keep by
  themselves: a node with a parent pointer is held by that parent in one of the four
  slots, whichever.
\<close>

definition held_by_parent :: "heap \<Rightarrow> addr \<Rightarrow> bool" where
  "held_by_parent h a =
     (case lookup h a of
        None \<Rightarrow> True
      | Some n \<Rightarrow>
          (case getParent n of
             None \<Rightarrow> True
           | Some p \<Rightarrow> (case lookup h p of None \<Rightarrow> False | Some pn \<Rightarrow> holds pn a)))"

definition all_held :: "heap \<Rightarrow> bool" where
  "all_held h = list_all (held_by_parent h) [0..<length h]"

text \<open>The nodes met from a root by following child pointers.\<close>

inductive reachable :: "heap \<Rightarrow> addr \<Rightarrow> addr \<Rightarrow> bool" for h :: heap and root :: addr where
  root: "lookup h root = Some n \<Longrightarrow> reachable h root root"
| child: "reachable h root a \<Longrightarrow> lookup h a = Some n \<Longrightarrow> getChild n q = Inr (Some c) \<Longrightarrow>
          reachable h root c"

datatype op = SetChild addr int "addr option" | ReleaseChild addr int

fun apply_op :: "heap \<Rightarrow> op \<Rightarrow> error + heap" where
  "apply_op h (SetChild this i c) = setChild h this i c"
| "apply_op h (ReleaseChild this i) = ebind (releaseChild h this i) (\<lambda>r. Inr (snd r))"

fun run_ops :: "heap \<Rightarrow> op list \<Rightarrow> error + heap" where
  "run_ops h [] = Inr h"
| "run_ops h (x # xs) = ebind (apply_op h x) (\<lambda>h'. run_ops h' xs)"

text \<open>
  The call installs a node in the slot of the node's own quadrant, as the merge phase
  does; \<^verbatim>\<open>setChild\<close> itself does not look at the tile.
\<close>

fun own_slot :: "heap \<Rightarrow> op \<Rightarrow> bool" where
  "own_slot h (SetChild this i (Some c)) =
     (case lookup h c of None \<Rightarrow> False | Some cn \<Rightarrow> ownQuadrant cn i)"
| "own_slot h (SetChild this i None) = True"
| "own_slot h (ReleaseChild this i) = True"

fun own_slots :: "heap \<Rightarrow> op list \<Rightarrow> bool" where
  "own_slots h [] = True"
| "own_slots h (x # xs) =
     (own_slot h x \<and> (case apply_op h x of Inl e \<Rightarrow> True | Inr h' \<Rightarrow> own_slots h' xs))"

text \<open>
  The common form of the two properties: a node with a parent pointer is held by the
  parent in a slot that \<^verbatim>\<open>ok\<close> admits for the node. \<^verbatim>\<open>tile_only\<close> says that
  what \<^verbatim>\<open>ok\<close> admits depends on the tile of the node alone.
\<close>

definition backrefs_by :: "(TileNode \<Rightarrow> int \<Rightarrow> bool) \<Rightarrow> heap \<Rightarrow> bool" where
  "backrefs_by ok h =
     (\<forall>a n p. lookup h a = Some n \<longrightarrow> mParent n = Some p \<longrightarrow>
        (\<exists>pn i. lookup h p = Some pn \<and> ok n i \<and> at4 (mChildren pn) i = Inr (Some a)))"

definition tile_only :: "(TileNode \<Rightarrow> int \<Rightarrow> bool) \<Rightarrow> bool" where
  "tile_only ok = (\<forall>n m. mTile n = mTile m \<longrightarrow> ok n = ok m)"


section \<open>Basic facts about the store\<close>


lemma length_store [simp]: "length (store h a n) = length h"
  by (simp add: store_def)

lemma length_free [simp]: "length (free h a) = length h"
  by (simp add: free_def)

lemma lookup_store:
  "lookup (store h a n) b = (if b = a \<and> a < length h then Some n else lookup h b)"
  by (simp add: lookup_def store_def)

lemma lookup_free: "lookup (free h a) b = (if b = a then None else lookup h b)"
  by (simp add: lookup_def free_def)

lemma lookup_Some_less: "lookup h a = Some n \<Longrightarrow> a < length h"
  by (simp add: lookup_def split: if_splits)

lemma lookup_store_live:
  "lookup h a = Some m \<Longrightarrow> lookup (store h a n) b = (if b = a then Some n else lookup h b)"
  by (simp add: lookup_store lookup_Some_less)

lemma store_same: "lookup h a = Some n \<Longrightarrow> store h a n = h"
  by (auto simp: store_def lookup_def list_update_same_conv split: if_splits)

lemma deref_live: "lookup h a = Some n \<Longrightarrow> deref h a = Inr n"
  by (simp add: deref_def)

lemma deref_Inr [simp]: "deref h a = Inr n \<longleftrightarrow> lookup h a = Some n"
  by (simp add: deref_def split: option.splits)

lemma deref_Inl [simp]: "deref h a = Inl e \<longleftrightarrow> lookup h a = None \<and> e = Dangling"
  by (auto simp add: deref_def split: option.splits)

lemma ebind_Inr [simp]: "ebind (Inr x) f = f x"
  by (simp add: ebind_def)

lemma ebind_Inl [simp]: "ebind (Inl e) f = Inl e"
  by (simp add: ebind_def)

lemma ebind_eq_Inr: "ebind m f = Inr y \<longleftrightarrow> (\<exists>x. m = Inr x \<and> f x = Inr y)"
  by (cases m) simp_all

lemma ebind_eq_Inl: "ebind m f = Inl e \<longleftrightarrow> m = Inl e \<or> (\<exists>x. m = Inr x \<and> f x = Inl e)"
  by (cases m) simp_all

lemma at4_Inl: "at4 cs i = Inl e \<longleftrightarrow> e = OutOfRange \<and> \<not> (0 \<le> i \<and> i \<le> 3)"
  by (cases cs) auto

lemma at4_in_range: "0 \<le> i \<Longrightarrow> i \<le> 3 \<Longrightarrow> \<exists>v. at4 cs i = Inr v"
  by (cases cs) auto

lemma at4_Inr_range: "at4 cs i = Inr v \<Longrightarrow> 0 \<le> i \<and> i \<le> 3"
  by (cases cs) (auto split: if_splits)

lemma put4_Inl: "put4 cs i v = Inl e \<longleftrightarrow> e = OutOfRange \<and> \<not> (0 \<le> i \<and> i \<le> 3)"
  by (cases cs) auto

lemma put4_in_range: "at4 cs i = Inr w \<Longrightarrow> \<exists>cs'. put4 cs i v = Inr cs'"
  by (cases cs) (auto split: if_splits)

lemma at4_put4: "put4 cs i v = Inr cs' \<Longrightarrow> at4 cs' j = (if j = i then Inr v else at4 cs j)"
  by (cases cs) (auto split: if_splits)

lemma put4_same: "at4 cs i = Inr v \<Longrightarrow> put4 cs i v = Inr cs"
  by (cases cs) (auto split: if_splits)

lemma destroy_not_OutOfRange: "destroy ws h = Inl e \<Longrightarrow> e = Dangling"
  by (induction ws h rule: destroy.induct) (auto split: option.splits)

lemma setParent_Inl: "setParent h a p = Inl e \<Longrightarrow> e = Dangling"
  by (auto simp: setParent_def ebind_eq_Inl)

lemma setParent_live:
  "lookup h a = Some n \<Longrightarrow> setParent h a p = Inr (store h a (n\<lparr>mParent := p\<rparr>))"
  by (simp add: setParent_def deref_live)

lemma setParentOfChild_Inl:
  "0 \<le> i \<Longrightarrow> i \<le> 3 \<Longrightarrow> setParentOfChild h this i p = Inl e \<Longrightarrow> e = Dangling"
  by (auto simp: setParentOfChild_def ebind_eq_Inl at4_Inl dest: setParent_Inl
      split: option.splits)

lemma releaseSlot_Inl:
  "0 \<le> i \<Longrightarrow> i \<le> 3 \<Longrightarrow> releaseSlot h this i = Inl e \<Longrightarrow> e = Dangling"
  by (auto simp: releaseSlot_def ebind_eq_Inl at4_Inl put4_Inl)

lemma resetSlot_Inl:
  "0 \<le> i \<Longrightarrow> i \<le> 3 \<Longrightarrow> resetSlot h this i c = Inl e \<Longrightarrow> e = Dangling"
  by (auto simp: resetSlot_def ebind_eq_Inl at4_Inl put4_Inl dest: destroy_not_OutOfRange)


section \<open>Properties of the tile node\<close>

text \<open>
  Claim C5. \<^verbatim>\<open>isRefined\<close> never fails and returns true exactly when each of
  \<^verbatim>\<open>getChild(0)\<close>, \<^verbatim>\<open>getChild(1)\<close>, \<^verbatim>\<open>getChild(2)\<close> and
  \<^verbatim>\<open>getChild(3)\<close> is a non-null pointer.
\<close>

theorem isRefined_iff:
  "isRefined n = Inr (getChild n 0 \<noteq> Inr None \<and> getChild n 1 \<noteq> Inr None \<and>
                      getChild n 2 \<noteq> Inr None \<and> getChild n 3 \<noteq> Inr None)"
  by (cases "mChildren n") (simp add: isRefined_def getChild_def)

text \<open>
  Claim C10. While the node holds a tile, \<^verbatim>\<open>getLevel\<close>, \<^verbatim>\<open>getPatchIdx\<close>,
  \<^verbatim>\<open>getTileId\<close> and \<^verbatim>\<open>getTileTypeId\<close> succeed and return what the tile
  returns; with a null tile each of them is a null dereference, and that is the state in
  which \<^verbatim>\<open>releaseTile\<close> leaves the node.
\<close>

theorem accessors_defined:
  "(mTile n = Some t \<longrightarrow>
      getLevel n = Inr (tb_getLevel t) \<and> getPatchIdx n = Inr (tb_getPatchIdx t) \<and>
      getTileId n = Inr (tb_getTileId t) \<and> getTileTypeId n = Inr (tb_getTypeId t)) \<and>
   (mTile n = None \<longrightarrow>
      getLevel n = Inl NullPointer \<and> getPatchIdx n = Inl NullPointer \<and>
      getTileId n = Inl NullPointer \<and> getTileTypeId n = Inl NullPointer) \<and>
   (releaseTile h this = Inr (old, h') \<longrightarrow>
      (\<exists>n'. lookup h' this = Some n' \<and>
         getLevel n' = Inl NullPointer \<and> getPatchIdx n' = Inl NullPointer \<and>
         getTileId n' = Inl NullPointer \<and> getTileTypeId n' = Inl NullPointer))"
proof (intro conjI impI)
  assume "releaseTile h this = Inr (old, h')"
  then obtain m where m: "lookup h this = Some m" and h': "h' = store h this (m\<lparr>mTile := None\<rparr>)"
    by (auto simp: releaseTile_def ebind_eq_Inr)
  then have "lookup h' this = Some (m\<lparr>mTile := None\<rparr>)" by (simp add: lookup_store_live)
  then show "\<exists>n'. lookup h' this = Some n' \<and>
         getLevel n' = Inl NullPointer \<and> getPatchIdx n' = Inl NullPointer \<and>
         getTileId n' = Inl NullPointer \<and> getTileTypeId n' = Inl NullPointer"
    by (simp add: getLevel_def getPatchIdx_def getTileId_def getTileTypeId_def tile_call_def)
qed (simp_all add: getLevel_def getPatchIdx_def getTileId_def getTileTypeId_def tile_call_def)

theorem accessors_defined_witness:
  "getLevel (newTileNode (Some \<lparr>tb_getLevel = 2, tb_getPatchIdx = 7,
       tb_getTileId = \<lparr>level = 2, patchIdx = 7\<rparr>, tb_getTypeId = ''float''\<rparr>)) = Inr 2 \<and>
   getTileId (newTileNode (Some \<lparr>tb_getLevel = 2, tb_getPatchIdx = 7,
       tb_getTileId = \<lparr>level = 2, patchIdx = 7\<rparr>, tb_getTypeId = ''float''\<rparr>))
     = Inr \<lparr>level = 2, patchIdx = 7\<rparr> \<and>
   releaseTile [Some (newTileNode (Some \<lparr>tb_getLevel = 2, tb_getPatchIdx = 7,
       tb_getTileId = \<lparr>level = 2, patchIdx = 7\<rparr>, tb_getTypeId = ''float''\<rparr>))] 0
     = Inr (Some \<lparr>tb_getLevel = 2, tb_getPatchIdx = 7,
              tb_getTileId = \<lparr>level = 2, patchIdx = 7\<rparr>, tb_getTypeId = ''float''\<rparr>,
            [Some (newTileNode None)]) \<and>
   (\<exists>n'. lookup [Some (newTileNode None)] 0 = Some n' \<and> getLevel n' = Inl NullPointer \<and>
      getPatchIdx n' = Inl NullPointer \<and> getTileId n' = Inl NullPointer \<and>
      getTileTypeId n' = Inl NullPointer)"
proof -
  let ?t = "\<lparr>tb_getLevel = 2, tb_getPatchIdx = 7,
       tb_getTileId = \<lparr>level = 2, patchIdx = 7\<rparr>, tb_getTypeId = ''float''\<rparr>"
  have held: "mTile (newTileNode (Some ?t)) = Some ?t" by (simp add: newTileNode_def)
  have rel: "releaseTile [Some (newTileNode (Some ?t))] 0 = Inr (Some ?t, [Some (newTileNode None)])"
    by (simp add: releaseTile_def deref_def lookup_def ebind_def store_def newTileNode_def)
  from accessors_defined [of "newTileNode (Some ?t)" ?t "[Some (newTileNode (Some ?t))]" 0
      "Some ?t" "[Some (newTileNode None)]"] held rel
  show ?thesis by simp
qed

text \<open>
  Claim C9. When slot \<^verbatim>\<open>i\<close> of a living node holds no child,
  \<^verbatim>\<open>releaseChild(i)\<close> returns the null pointer and the store after the call is the
  store before it: no slot and no parent back-reference of any node has changed.
\<close>

theorem releaseChild_empty:
  assumes "lookup h this = Some n" and "getChild n i = Inr None"
  shows "releaseChild h this i = Inr (None, h)"
  using assms
  by (simp add: releaseChild_def setParentOfChild_def releaseSlot_def getChild_def
      put4_same store_same deref_live)

theorem releaseChild_empty_witness:
  "lookup [Some (newTileNode None)] 0 = Some (newTileNode None) \<and>
   getChild (newTileNode None) 2 = Inr None \<and>
   releaseChild [Some (newTileNode None)] 0 2 = Inr (None, [Some (newTileNode None)])"
  using releaseChild_empty [of "[Some (newTileNode None)]" 0 "newTileNode None" 2]
  by (simp add: lookup_def getChild_def newTileNode_def)

text \<open>
  Outside the range 0 to 3 the three operations on a living node end in the exception
  of \<^verbatim>\<open>std::array::at\<close>, before anything has been written.
\<close>

lemma child_index_out_of_range:
  "\<not> (0 \<le> i \<and> i \<le> 3) \<Longrightarrow> lookup h this = Some n \<Longrightarrow>
     getChild n i = Inl OutOfRange \<and> setChild h this i c = Inl OutOfRange \<and>
     releaseChild h this i = Inl OutOfRange"
  by (cases "mChildren n")
    (auto simp: getChild_def setChild_def releaseChild_def setParentOfChild_def deref_live)

text \<open>
  Claim C6. For a child index from 0 to 3, \<^verbatim>\<open>getChild\<close> returns a pointer, and
  neither \<^verbatim>\<open>setChild\<close> nor \<^verbatim>\<open>releaseChild\<close> ends in the out-of-range
  exception of \<^verbatim>\<open>std::array::at\<close>.
\<close>

theorem child_index_in_range:
  assumes "0 \<le> i" and "i \<le> 3"
  shows "(\<exists>c. getChild n i = Inr c) \<and>
         setChild h this i child \<noteq> Inl OutOfRange \<and>
         releaseChild h this i \<noteq> Inl OutOfRange"
proof (intro conjI)
  show "\<exists>c. getChild n i = Inr c"
    using assms by (simp add: getChild_def at4_in_range)
  show "setChild h this i child \<noteq> Inl OutOfRange"
    using assms
    by (auto simp: setChild_def ebind_eq_Inl
        dest: setParentOfChild_Inl resetSlot_Inl)
  show "releaseChild h this i \<noteq> Inl OutOfRange"
    using assms
    by (auto simp: releaseChild_def ebind_eq_Inl
        dest: setParentOfChild_Inl releaseSlot_Inl)
qed

theorem child_index_in_range_witness:
  "(\<exists>c. getChild (newTileNode None) 3 = Inr c) \<and>
   setChild [Some (newTileNode None), Some (newTileNode None)] 0 3 (Some 1) \<noteq> Inl OutOfRange \<and>
   releaseChild [Some (newTileNode None), Some (newTileNode None)] 0 3 \<noteq> Inl OutOfRange"
  using child_index_in_range [of 3 "newTileNode None"
      "[Some (newTileNode None), Some (newTileNode None)]" 0 "Some 1"]
  by simp

text \<open>
  Claim C7. On a living node \<^verbatim>\<open>setTile\<close> and \<^verbatim>\<open>releaseTile\<close> succeed and
  change nothing but the tile of that node: the child slots and the parent back-reference
  of every node are the same before and after, and every other node is untouched.
\<close>

theorem tile_swap_frame:
  assumes "lookup h this = Some n"
  shows "\<exists>h1 h2. setTile h this tile = Inr h1 \<and> releaseTile h this = Inr (mTile n, h2) \<and>
           length h1 = length h \<and> length h2 = length h \<and>
           (\<forall>a. map_option mChildren (lookup h1 a) = map_option mChildren (lookup h a) \<and>
                map_option mParent (lookup h1 a) = map_option mParent (lookup h a) \<and>
                map_option mChildren (lookup h2 a) = map_option mChildren (lookup h a) \<and>
                map_option mParent (lookup h2 a) = map_option mParent (lookup h a)) \<and>
           (\<forall>a. a \<noteq> this \<longrightarrow> lookup h1 a = lookup h a \<and> lookup h2 a = lookup h a) \<and>
           map_option mTile (lookup h1 this) = Some tile \<and>
           map_option mTile (lookup h2 this) = Some None"
  using assms
  by (simp add: setTile_def releaseTile_def deref_live lookup_store_live)

theorem tile_swap_frame_witness:
  "\<exists>h1 h2.
     setTile
       [Some \<lparr>mTile = None, mChildren = Array4 None None (Some 1) None, mParent = None\<rparr>,
        Some \<lparr>mTile = Some \<lparr>tb_getLevel = 1, tb_getPatchIdx = 2,
                 tb_getTileId = \<lparr>level = 1, patchIdx = 2\<rparr>, tb_getTypeId = ''dem''\<rparr>,
              mChildren = Array4 (Some 2) None None None, mParent = Some 0\<rparr>,
        Some \<lparr>mTile = None, mChildren = Array4 None None None None, mParent = Some 1\<rparr>] 1
       (Some \<lparr>tb_getLevel = 1, tb_getPatchIdx = 2,
                 tb_getTileId = \<lparr>level = 1, patchIdx = 2\<rparr>, tb_getTypeId = ''img''\<rparr>)
       = Inr h1 \<and>
     releaseTile
       [Some \<lparr>mTile = None, mChildren = Array4 None None (Some 1) None, mParent = None\<rparr>,
        Some \<lparr>mTile = Some \<lparr>tb_getLevel = 1, tb_getPatchIdx = 2,
                 tb_getTileId = \<lparr>level = 1, patchIdx = 2\<rparr>, tb_getTypeId = ''dem''\<rparr>,
              mChildren = Array4 (Some 2) None None None, mParent = Some 0\<rparr>,
        Some \<lparr>mTile = None, mChildren = Array4 None None None None, mParent = Some 1\<rparr>] 1
       = Inr (Some \<lparr>tb_getLevel = 1, tb_getPatchIdx = 2,
                 tb_getTileId = \<lparr>level = 1, patchIdx = 2\<rparr>, tb_getTypeId = ''dem''\<rparr>, h2) \<and>
     map_option mTile (lookup h1 1) = Some (Some \<lparr>tb_getLevel = 1, tb_getPatchIdx = 2,
                 tb_getTileId = \<lparr>level = 1, patchIdx = 2\<rparr>, tb_getTypeId = ''img''\<rparr>) \<and>
     map_option mTile (lookup h2 1) = Some None \<and>
     map_option mChildren (lookup h1 1) = Some (Array4 (Some 2) None None None) \<and>
     map_option mParent (lookup h1 1) = Some (Some 0) \<and>
     map_option mChildren (lookup h2 1) = Some (Array4 (Some 2) None None None) \<and>
     map_option mParent (lookup h2 1) = Some (Some 0) \<and>
     map_option mChildren (lookup h1 0) = Some (Array4 None None (Some 1) None) \<and>
     map_option mChildren (lookup h2 0) = Some (Array4 None None (Some 1) None) \<and>
     map_option mParent (lookup h1 2) = Some (Some 1) \<and>
     map_option mParent (lookup h2 2) = Some (Some 1)"
proof -
  let ?dem = "\<lparr>tb_getLevel = 1, tb_getPatchIdx = 2,
                 tb_getTileId = \<lparr>level = 1, patchIdx = 2\<rparr>, tb_getTypeId = ''dem''\<rparr>"
  let ?img = "\<lparr>tb_getLevel = 1, tb_getPatchIdx = 2,
                 tb_getTileId = \<lparr>level = 1, patchIdx = 2\<rparr>, tb_getTypeId = ''img''\<rparr>"
  let ?p = "\<lparr>mTile = None, mChildren = Array4 None None (Some 1) None, mParent = None\<rparr>"
  let ?n = "\<lparr>mTile = Some ?dem, mChildren = Array4 (Some 2) None None None, mParent = Some 0\<rparr>"
  let ?c = "\<lparr>mTile = None, mChildren = Array4 None None None None, mParent = Some 1\<rparr>"
  let ?h = "[Some ?p, Some ?n, Some ?c]"
  have alive: "lookup ?h 1 = Some ?n" by (simp add: lookup_def)
  from tile_swap_frame [OF alive, of "Some ?img"] obtain h1 h2 where
    s: "setTile ?h 1 (Some ?img) = Inr h1" and r: "releaseTile ?h 1 = Inr (mTile ?n, h2)"
    and frame: "\<forall>a. map_option mChildren (lookup h1 a) = map_option mChildren (lookup ?h a) \<and>
                map_option mParent (lookup h1 a) = map_option mParent (lookup ?h a) \<and>
                map_option mChildren (lookup h2 a) = map_option mChildren (lookup ?h a) \<and>
                map_option mParent (lookup h2 a) = map_option mParent (lookup ?h a)"
    and t1: "map_option mTile (lookup h1 1) = Some (Some ?img)"
    and t2: "map_option mTile (lookup h2 1) = Some None"
    by blast
  have l0: "lookup ?h 0 = Some ?p" and l2: "lookup ?h 2 = Some ?c" by (simp_all add: lookup_def)
  from frame [rule_format, of 0] frame [rule_format, of 1] frame [rule_format, of 2]
    alive l0 l2 s r t1 t2
  show ?thesis by (intro exI [of _ h1] exI [of _ h2]) simp
qed

text \<open>
  Claim C4. On a living node whose slot \<^verbatim>\<open>i\<close> holds the pointer \<^verbatim>\<open>c\<close>
  (null, or the address of a living node), \<^verbatim>\<open>releaseChild(i)\<close> returns
  \<^verbatim>\<open>c\<close>; afterwards slot \<^verbatim>\<open>i\<close> is empty, and the released node is still
  alive (it has not been deleted) with a null parent back-reference. Nothing else
  changes: the released node keeps its tile and its own children, the node keeps its
  tile and its other slots, and every other node of the store is as before.
\<close>

theorem releaseChild_returns_child:
  assumes "lookup h this = Some n" and "getChild n i = Inr c"
    and "\<forall>ca. c = Some ca \<longrightarrow> lookup h ca \<noteq> None"
  shows "\<exists>h' n' cs. releaseChild h this i = Inr (c, h') \<and>
           lookup h' this = Some n' \<and> getChild n' i = Inr None \<and>
           (\<forall>ca. c = Some ca \<longrightarrow> (\<exists>cn. lookup h' ca = Some cn \<and> getParent cn = None)) \<and>
           length h' = length h \<and>
           mTile n' = mTile n \<and> (\<forall>j. j \<noteq> i \<longrightarrow> getChild n' j = getChild n j) \<and>
           put4 (mChildren n) i None = Inr cs \<and>
           (\<forall>a. lookup h' a =
              (if a = this
               then Some ((if c = Some this then n\<lparr>mParent := None\<rparr> else n)\<lparr>mChildren := cs\<rparr>)
               else if c = Some a then map_option (\<lambda>m. m\<lparr>mParent := None\<rparr>) (lookup h a)
               else lookup h a))"
proof -
  from assms(2) have at: "at4 (mChildren n) i = Inr c" by (simp add: getChild_def)
  from put4_in_range [OF at, of None] obtain cs where cs: "put4 (mChildren n) i None = Inr cs"
    by blast
  have slots: "getChild (m\<lparr>mChildren := cs\<rparr>) j = (if j = i then Inr None else getChild n j)"
    for m :: TileNode and j
    using at4_put4 [OF cs, of j] by (simp add: getChild_def)
  show ?thesis
  proof (cases c)
    case None
    from at None have "put4 (mChildren n) i None = Inr (mChildren n)" by (simp add: put4_same)
    with cs have same: "cs = mChildren n" by simp
    from assms(1) at None have r: "releaseChild h this i = Inr (c, h)"
      by (simp add: releaseChild_def setParentOfChild_def releaseSlot_def
          put4_same store_same deref_live)
    show ?thesis
      by (intro exI [of _ h] exI [of _ n] exI [of _ cs])
        (use r assms(1,2) None cs same in simp)
  next
    case (Some ca)
    with assms obtain cn where cn: "lookup h ca = Some cn" by auto
    let ?h1 = "store h ca (cn\<lparr>mParent := None\<rparr>)"
    let ?n1 = "if ca = this then n\<lparr>mParent := None\<rparr> else n"
    let ?n2 = "?n1\<lparr>mChildren := cs\<rparr>"
    let ?h2 = "store ?h1 this ?n2"
    from assms(1) at Some cn have h1: "setParentOfChild h this i None = Inr ?h1"
      by (simp add: setParentOfChild_def deref_live setParent_live)
    have n1: "lookup ?h1 this = Some ?n1"
      using assms(1) cn by (auto simp: lookup_store_live)
    have k1: "mChildren ?n1 = mChildren n" by simp
    from n1 k1 cs at have "releaseSlot ?h1 this i = Inr (c, ?h2)"
      by (simp add: releaseSlot_def deref_live del: if_split cong: if_cong)
    with h1 have r: "releaseChild h this i = Inr (c, ?h2)"
      by (simp add: releaseChild_def)
    have look: "lookup ?h2 a =
              (if a = this
               then Some ((if c = Some this then n\<lparr>mParent := None\<rparr> else n)\<lparr>mChildren := cs\<rparr>)
               else if c = Some a then map_option (\<lambda>m. m\<lparr>mParent := None\<rparr>) (lookup h a)
               else lookup h a)" for a
      using n1 cn Some by (auto simp: lookup_store_live)
    have child: "\<exists>cn'. lookup ?h2 ca = Some cn' \<and> getParent cn' = None"
      using look [of ca] cn Some by (auto simp: getParent_def)
    have len: "length ?h2 = length h" by simp
    show ?thesis
      apply (intro exI [of _ ?h2] exI [of _ ?n2] exI [of _ cs] conjI)
              apply (rule r)
             apply (use n1 in \<open>simp add: lookup_store_live\<close>)
            apply (simp add: slots)
           apply (use child Some in simp)
          apply (rule len)
         apply simp
        apply (simp add: slots)
       apply (rule cs)
      apply (use look in blast)
      done
  qed
qed

theorem releaseChild_returns_child_witness:
  "\<exists>h'. releaseChild
       [Some \<lparr>mTile = None, mChildren = Array4 (Some 3) (Some 1) None None, mParent = None\<rparr>,
        Some \<lparr>mTile = Some \<lparr>tb_getLevel = 1, tb_getPatchIdx = 1,
                 tb_getTileId = \<lparr>level = 1, patchIdx = 1\<rparr>, tb_getTypeId = ''dem''\<rparr>,
              mChildren = Array4 None None (Some 2) None, mParent = Some 0\<rparr>,
        Some \<lparr>mTile = None, mChildren = Array4 None None None None, mParent = Some 1\<rparr>,
        Some \<lparr>mTile = None, mChildren = Array4 None None None None, mParent = Some 0\<rparr>] 0 1
       = Inr (Some 1, h') \<and>
     lookup h' 0 =
       Some \<lparr>mTile = None, mChildren = Array4 (Some 3) None None None, mParent = None\<rparr> \<and>
     lookup h' 1 =
       Some \<lparr>mTile = Some \<lparr>tb_getLevel = 1, tb_getPatchIdx = 1,
                 tb_getTileId = \<lparr>level = 1, patchIdx = 1\<rparr>, tb_getTypeId = ''dem''\<rparr>,
              mChildren = Array4 None None (Some 2) None, mParent = None\<rparr> \<and>
     lookup h' 2 =
       Some \<lparr>mTile = None, mChildren = Array4 None None None None, mParent = Some 1\<rparr> \<and>
     lookup h' 3 =
       Some \<lparr>mTile = None, mChildren = Array4 None None None None, mParent = Some 0\<rparr> \<and>
     length h' = 4"
proof -
  let ?p = "\<lparr>mTile = None, mChildren = Array4 (Some 3) (Some 1) None None, mParent = None\<rparr>"
  let ?c = "\<lparr>mTile = Some \<lparr>tb_getLevel = 1, tb_getPatchIdx = 1,
                 tb_getTileId = \<lparr>level = 1, patchIdx = 1\<rparr>, tb_getTypeId = ''dem''\<rparr>,
              mChildren = Array4 None None (Some 2) None, mParent = Some 0\<rparr>"
  let ?g = "\<lparr>mTile = None, mChildren = Array4 None None None None, mParent = Some 1\<rparr>"
  let ?s = "\<lparr>mTile = None, mChildren = Array4 None None None None, mParent = Some 0\<rparr>"
  let ?h = "[Some ?p, Some ?c, Some ?g, Some ?s]"
  have alive: "lookup ?h 0 = Some ?p" by (simp add: lookup_def)
  have slot: "getChild ?p 1 = Inr (Some 1)" by (simp add: getChild_def)
  have child: "\<forall>ca. Some 1 = Some ca \<longrightarrow> lookup ?h ca \<noteq> None" by (simp add: lookup_def)
  from releaseChild_returns_child [OF alive slot child] obtain h' n' cs where
    r: "releaseChild ?h 0 1 = Inr (Some 1, h')" and len: "length h' = length ?h"
    and cs: "put4 (mChildren ?p) 1 None = Inr cs"
    and look: "\<forall>a. lookup h' a =
              (if a = 0
               then Some ((if Some (1::nat) = Some 0 then ?p\<lparr>mParent := None\<rparr> else ?p)\<lparr>mChildren := cs\<rparr>)
               else if Some 1 = Some a then map_option (\<lambda>m. m\<lparr>mParent := None\<rparr>) (lookup ?h a)
               else lookup ?h a)"
    by blast
  from cs have cs': "cs = Array4 (Some 3) None None None" by simp
  have "lookup h' 0 = Some \<lparr>mTile = None, mChildren = Array4 (Some 3) None None None, mParent = None\<rparr>"
    using look [rule_format, of 0] cs' by simp
  moreover have "lookup h' 1 = Some (?c\<lparr>mParent := None\<rparr>)"
    using look [rule_format, of 1] by (simp add: lookup_def)
  moreover have "lookup h' 2 = Some ?g"
    using look [rule_format, of 2] by (simp add: lookup_def)
  moreover have "lookup h' 3 = Some ?s"
    using look [rule_format, of 3] by (simp add: lookup_def)
  ultimately show ?thesis using r len by (intro exI [of _ h']) simp
qed

section \<open>Back-references under sequences of operations\<close>


lemma holds_iff: "holds n a \<longleftrightarrow> (\<exists>q. at4 (mChildren n) q = Inr (Some a))"
proof
  show "holds n a \<Longrightarrow> \<exists>q. at4 (mChildren n) q = Inr (Some a)"
    unfolding holds_def getChild_def by blast
  show "\<exists>q. at4 (mChildren n) q = Inr (Some a) \<Longrightarrow> holds n a"
    by (cases "mChildren n") (auto simp: holds_def getChild_def split: if_splits)
qed

lemma set_owned: "set (owned n) = {a. holds n a}"
  by (cases "mChildren n") (auto simp: owned_def holds_def getChild_def List.map_filter_def)

lemma holds_parent_update [simp]: "holds (n\<lparr>mParent := p\<rparr>) a = holds n a"
  by (simp add: holds_def getChild_def)

lemma setParent_Inr:
  "setParent h a p = Inr h' \<longleftrightarrow> (\<exists>n. lookup h a = Some n \<and> h' = store h a (n\<lparr>mParent := p\<rparr>))"
  by (auto simp: setParent_def ebind_eq_Inr)

lemma destroy_sub:
  "destroy ws h = Inr h' \<Longrightarrow>
     length h' = length h \<and>
     (\<forall>a. lookup h' a = None \<or> lookup h' a = lookup h a) \<and>
     (\<forall>a \<in> set ws. lookup h' a = None) \<and>
     (\<forall>x n c. lookup h x = Some n \<longrightarrow> lookup h' x = None \<longrightarrow> holds n c \<longrightarrow>
        lookup h' c = None)"
proof (induction ws h rule: destroy.induct)
  case (1 h)
  then show ?case by simp
next
  case (2 a as h)
  from "2.prems" obtain n where n: "lookup h a = Some n"
    and d: "destroy (owned n @ as) (free h a) = Inr h'"
    by (auto split: option.splits)
  note IH = "2.IH" [OF n d]
  from IH have len: "length h' = length h" by simp
  from IH have sub: "\<forall>b. lookup h' b = None \<or> lookup h' b = lookup (free h a) b" by blast
  from IH have ws: "\<forall>b \<in> set (owned n @ as). lookup h' b = None" by blast
  from IH have cl: "\<forall>x m c. lookup (free h a) x = Some m \<longrightarrow> lookup h' x = None \<longrightarrow>
      holds m c \<longrightarrow> lookup h' c = None" by blast
  from sub have a_dead: "lookup h' a = None" by (metis lookup_free)
  have "\<forall>b. lookup h' b = None \<or> lookup h' b = lookup h b"
    using sub by (metis lookup_free)
  moreover have "\<forall>b \<in> set (a # as). lookup h' b = None"
    using a_dead ws by simp
  moreover have "\<forall>x m c. lookup h x = Some m \<longrightarrow> lookup h' x = None \<longrightarrow> holds m c \<longrightarrow>
      lookup h' c = None"
  proof (intro allI impI)
    fix x m c
    assume x: "lookup h x = Some m" "lookup h' x = None" "holds m c"
    show "lookup h' c = None"
    proof (cases "x = a")
      case True
      with x n have "c \<in> set (owned n)" by (simp add: set_owned)
      with ws show ?thesis by simp
    next
      case False
      with x have "lookup (free h a) x = Some m" by (simp add: lookup_free)
      with cl x show ?thesis by blast
    qed
  qed
  ultimately show ?case using len by blast
qed

lemma setParentOfChild_Inr:
  "setParentOfChild h this i p = Inr h' \<longleftrightarrow>
     (\<exists>n c. lookup h this = Some n \<and> at4 (mChildren n) i = Inr c \<and>
        (case c of None \<Rightarrow> h' = h | Some ca \<Rightarrow> setParent h ca p = Inr h'))"
  by (auto simp: setParentOfChild_def ebind_eq_Inr split: option.splits)

lemma clear_parent_of_child:
  assumes "setParentOfChild h this i None = Inr h1"
  shows "\<exists>n n1 old. lookup h this = Some n \<and> at4 (mChildren n) i = Inr old \<and>
           lookup h1 this = Some n1 \<and> mChildren n1 = mChildren n \<and>
           (\<forall>oa. old = Some oa \<longrightarrow> (\<exists>m. lookup h1 oa = Some m \<and> mParent m = None))"
proof -
  from assms obtain n old where n: "lookup h this = Some n" "at4 (mChildren n) i = Inr old"
    and r: "case old of None \<Rightarrow> h1 = h | Some oa \<Rightarrow> setParent h oa None = Inr h1"
    by (auto simp: setParentOfChild_Inr)
  show ?thesis
  proof (cases old)
    case None
    with n r show ?thesis by auto
  next
    case (Some oa)
    with r obtain m where m: "lookup h oa = Some m" "h1 = store h oa (m\<lparr>mParent := None\<rparr>)"
      by (auto simp: setParent_Inr)
    with n Some show ?thesis
      by (cases "this = oa") (auto simp: lookup_store_live)
  qed
qed

lemma resetSlot_Inr:
  "resetSlot h this i c = Inr h' \<longleftrightarrow>
     (\<exists>n old cs. lookup h this = Some n \<and> at4 (mChildren n) i = Inr old \<and>
        put4 (mChildren n) i c = Inr cs \<and>
        destroy (case old of None \<Rightarrow> [] | Some oa \<Rightarrow> [oa])
          (store h this (n\<lparr>mChildren := cs\<rparr>)) = Inr h')"
  by (auto simp: resetSlot_def ebind_eq_Inr)

lemma releaseSlot_Inr:
  "releaseSlot h this i = Inr r \<longleftrightarrow>
     (\<exists>n old cs. lookup h this = Some n \<and> at4 (mChildren n) i = Inr old \<and>
        put4 (mChildren n) i None = Inr cs \<and>
        r = (old, store h this (n\<lparr>mChildren := cs\<rparr>)))"
  by (auto simp: releaseSlot_def ebind_eq_Inr)

lemma tile_onlyD: "tile_only ok \<Longrightarrow> mTile n = mTile m \<Longrightarrow> ok n = ok m"
  unfolding tile_only_def by blast

lemma by_clear_parent:
  assumes "backrefs_by ok h" and "setParent h x None = Inr h'"
  shows "backrefs_by ok h'"
proof -
  from assms(2) obtain xn where xn: "lookup h x = Some xn"
    and h': "h' = store h x (xn\<lparr>mParent := None\<rparr>)"
    by (auto simp: setParent_Inr)
  show ?thesis
    unfolding backrefs_by_def
  proof (intro allI impI)
    fix a n p
    assume a: "lookup h' a = Some n" and p: "mParent n = Some p"
    from a p h' xn have an: "lookup h a = Some n"
      by (auto simp: lookup_store_live split: if_splits)
    from assms(1) an p obtain pn i where pn: "lookup h p = Some pn" "ok n i"
      "at4 (mChildren pn) i = Inr (Some a)"
      unfolding backrefs_by_def by blast
    show "\<exists>pn i. lookup h' p = Some pn \<and> ok n i \<and> at4 (mChildren pn) i = Inr (Some a)"
      using pn xn h' by (cases "p = x") (auto simp: lookup_store_live)
  qed
qed

lemma by_set_parent:
  assumes "backrefs_by ok h" and "tile_only ok" and "lookup h this = Some n"
    and "at4 (mChildren n) i = Inr (Some c)" and "lookup h c = Some cn" and "ok cn i"
    and "setParent h c (Some this) = Inr h'"
  shows "backrefs_by ok h'"
proof -
  from assms(5,7) have h': "h' = store h c (cn\<lparr>mParent := Some this\<rparr>)"
    by (auto simp: setParent_Inr)
  have keep: "\<exists>pn'. lookup h' p = Some pn' \<and> at4 (mChildren pn') j = Inr (Some a)"
    if "lookup h p = Some pn" "at4 (mChildren pn) j = Inr (Some a)" for p pn a j
    using that assms(5) h' by (cases "p = c") (auto simp: lookup_store_live)
  have okc: "ok (cn\<lparr>mParent := Some this\<rparr>) = ok cn"
    by (rule tile_onlyD [OF assms(2)]) simp
  show ?thesis
    unfolding backrefs_by_def
  proof (intro allI impI)
    fix a m p
    assume a: "lookup h' a = Some m" and p: "mParent m = Some p"
    show "\<exists>pn j. lookup h' p = Some pn \<and> ok m j \<and> at4 (mChildren pn) j = Inr (Some a)"
    proof (cases "a = c")
      case True
      with a p h' assms(5) have "p = this" and m: "m = cn\<lparr>mParent := Some this\<rparr>"
        by (auto simp: lookup_store_live)
      from keep [OF assms(3,4)] obtain pn' where
        pn': "lookup h' this = Some pn'" "at4 (mChildren pn') i = Inr (Some c)" by blast
      from okc assms(6) have "ok (cn\<lparr>mParent := Some this\<rparr>) i" by simp
      with m have "ok m i" by simp
      with pn' \<open>p = this\<close> True show ?thesis by blast
    next
      case False
      with a h' assms(5) have "lookup h a = Some m" by (auto simp: lookup_store_live)
      with assms(1) p obtain pn j where "lookup h p = Some pn" "ok m j"
        "at4 (mChildren pn) j = Inr (Some a)"
        unfolding backrefs_by_def by blast
      with keep show ?thesis by blast
    qed
  qed
qed

lemma by_put_slot:
  assumes "backrefs_by ok h" and "tile_only ok" and "lookup h this = Some n"
    and "at4 (mChildren n) i = Inr old" and "put4 (mChildren n) i c = Inr cs"
    and "\<And>oa m. old = Some oa \<Longrightarrow> lookup h oa = Some m \<Longrightarrow> mParent m \<noteq> Some this"
  shows "backrefs_by ok (store h this (n\<lparr>mChildren := cs\<rparr>))"
  unfolding backrefs_by_def
proof (intro allI impI)
  fix a m p
  let ?h' = "store h this (n\<lparr>mChildren := cs\<rparr>)"
  assume a: "lookup ?h' a = Some m" and p: "mParent m = Some p"
  have okn: "ok (n\<lparr>mChildren := cs\<rparr>) = ok n"
    by (rule tile_onlyD [OF assms(2)]) simp
  have "\<exists>m0. lookup h a = Some m0 \<and> mParent m0 = Some p \<and> ok m = ok m0"
  proof (cases "a = this")
    case True
    with a assms(3) have "m = n\<lparr>mChildren := cs\<rparr>" by (simp add: lookup_store_live)
    with True p assms(3) okn show ?thesis by simp
  next
    case False
    with a assms(3) have "lookup h a = Some m" by (simp add: lookup_store_live)
    with p show ?thesis by simp
  qed
  then obtain m0 where m0: "lookup h a = Some m0" "mParent m0 = Some p" "ok m = ok m0"
    by blast
  from assms(1) m0 obtain pn q where pn: "lookup h p = Some pn" "ok m0 q"
    "at4 (mChildren pn) q = Inr (Some a)"
    unfolding backrefs_by_def by blast
  show "\<exists>pn j. lookup ?h' p = Some pn \<and> ok m j \<and> at4 (mChildren pn) j = Inr (Some a)"
  proof (cases "p = this")
    case False
    with pn(1) assms(3) have "lookup ?h' p = Some pn" by (simp add: lookup_store_live)
    moreover from pn(2) m0(3) have "ok m q" by simp
    ultimately show ?thesis using pn(3) by blast
  next
    case True
    with pn assms(3) have q: "at4 (mChildren n) q = Inr (Some a)" by simp
    have "q \<noteq> i"
    proof
      assume "q = i"
      with q assms(4) have "old = Some a" by simp
      from assms(6) [OF this m0(1)] m0(2) True show False by simp
    qed
    with q at4_put4 [OF assms(5), of q] have "at4 cs q = Inr (Some a)" by simp
    moreover from True assms(3) have "lookup ?h' p = Some (n\<lparr>mChildren := cs\<rparr>)"
      by (simp add: lookup_store_live)
    moreover from pn(2) m0(3) have "ok m q" by simp
    ultimately show ?thesis by auto
  qed
qed

lemma by_destroy:
  assumes "backrefs_by ok h" and "destroy ws h = Inr h'"
  shows "backrefs_by ok h'"
  unfolding backrefs_by_def
proof (intro allI impI)
  fix a m p
  assume a: "lookup h' a = Some m" and p: "mParent m = Some p"
  note d = destroy_sub [OF assms(2)]
  from d have sub: "lookup h' b = None \<or> lookup h' b = lookup h b" for b by blast
  from sub [of a] a have a0: "lookup h a = Some m" by auto
  with assms(1) p obtain pn q where pn: "lookup h p = Some pn" "ok m q"
    "at4 (mChildren pn) q = Inr (Some a)"
    unfolding backrefs_by_def by blast
  then have hold: "holds pn a" by (auto simp: holds_iff)
  have "lookup h' p \<noteq> None"
  proof
    assume "lookup h' p = None"
    with d pn(1) hold have "lookup h' a = None" by blast
    with a show False by simp
  qed
  with sub [of p] pn(1) have "lookup h' p = Some pn" by auto
  with pn show "\<exists>pn j. lookup h' p = Some pn \<and> ok m j \<and> at4 (mChildren pn) j = Inr (Some a)"
    by blast
qed

lemma by_clear_parent_of_child:
  assumes "backrefs_by ok h" and "setParentOfChild h this i None = Inr h'"
  shows "backrefs_by ok h'"
  using assms
  by (auto simp: setParentOfChild_Inr split: option.splits intro: by_clear_parent)

text \<open>The tile of a node is the same for as long as the node lives.\<close>

lemma setParentOfChild_tiles:
  assumes "setParentOfChild h this i p = Inr h'" and "lookup h' a = Some m"
  shows "\<exists>m0. lookup h a = Some m0 \<and> mTile m = mTile m0"
proof -
  from assms(1) obtain n c where "lookup h this = Some n"
    and r: "case c of None \<Rightarrow> h' = h | Some ca \<Rightarrow> setParent h ca p = Inr h'"
    by (auto simp: setParentOfChild_Inr)
  show ?thesis
  proof (cases c)
    case None
    with r assms(2) show ?thesis by simp
  next
    case (Some ca)
    with r obtain cn where "lookup h ca = Some cn" "h' = store h ca (cn\<lparr>mParent := p\<rparr>)"
      by (auto simp: setParent_Inr)
    with assms(2) show ?thesis by (cases "a = ca") (auto simp: lookup_store_live)
  qed
qed

lemma resetSlot_result:
  assumes "resetSlot h this i c = Inr h'"
  shows "(\<forall>a m. lookup h' a = Some m \<longrightarrow> (\<exists>m0. lookup h a = Some m0 \<and> mTile m = mTile m0)) \<and>
         (\<forall>n'. lookup h' this = Some n' \<longrightarrow> at4 (mChildren n') i = Inr c)"
proof -
  from assms obtain n old cs where n: "lookup h this = Some n"
    and cs: "put4 (mChildren n) i c = Inr cs"
    and d: "destroy (case old of None \<Rightarrow> [] | Some oa \<Rightarrow> [oa])
              (store h this (n\<lparr>mChildren := cs\<rparr>)) = Inr h'"
    by (auto simp: resetSlot_Inr)
  let ?g = "store h this (n\<lparr>mChildren := cs\<rparr>)"
  from destroy_sub [OF d] have sub: "\<forall>a. lookup h' a = None \<or> lookup h' a = lookup ?g a"
    by blast
  have g: "lookup ?g a = (if a = this then Some (n\<lparr>mChildren := cs\<rparr>) else lookup h a)" for a
    using n by (simp add: lookup_store_live)
  have "\<exists>m0. lookup h a = Some m0 \<and> mTile m = mTile m0" if "lookup h' a = Some m" for a m
  proof -
    from that sub [rule_format, of a] have ga: "lookup ?g a = Some m" by auto
    show ?thesis
    proof (cases "a = this")
      case True
      with ga g [of a] have "m = n\<lparr>mChildren := cs\<rparr>" by simp
      with True n show ?thesis by simp
    next
      case False
      with ga g [of a] have "lookup h a = Some m" by simp
      then show ?thesis by simp
    qed
  qed
  moreover have "at4 (mChildren n') i = Inr c" if "lookup h' this = Some n'" for n'
  proof -
    from that sub [rule_format, of this] have "lookup ?g this = Some n'" by auto
    with g [of this] have "n' = n\<lparr>mChildren := cs\<rparr>" by simp
    with at4_put4 [OF cs, of i] show ?thesis by simp
  qed
  ultimately show ?thesis by blast
qed

lemma by_setChild:
  assumes inv: "backrefs_by ok h" and tile: "tile_only ok"
    and run: "setChild h this i c = Inr h'"
    and own: "\<And>ca cn. c = Some ca \<Longrightarrow> lookup h ca = Some cn \<Longrightarrow> ok cn i"
  shows "backrefs_by ok h'"
proof -
  from run obtain h1 h2 where h1: "setParentOfChild h this i None = Inr h1"
    and h2: "resetSlot h1 this i c = Inr h2"
    and h3: "setParentOfChild h2 this i (Some this) = Inr h'"
    by (auto simp: setChild_def ebind_eq_Inr)
  from inv h1 have b1: "backrefs_by ok h1" by (rule by_clear_parent_of_child)
  from clear_parent_of_child [OF h1] obtain n n1 old where
    n: "lookup h this = Some n" "at4 (mChildren n) i = Inr old"
    and n1: "lookup h1 this = Some n1" "mChildren n1 = mChildren n"
    and old: "\<forall>oa. old = Some oa \<longrightarrow> (\<exists>m. lookup h1 oa = Some m \<and> mParent m = None)"
    by blast
  from h2 n1 n obtain cs where cs: "put4 (mChildren n1) i c = Inr cs"
    and d: "destroy (case old of None \<Rightarrow> [] | Some oa \<Rightarrow> [oa])
              (store h1 this (n1\<lparr>mChildren := cs\<rparr>)) = Inr h2"
    by (auto simp: resetSlot_Inr)
  have "backrefs_by ok (store h1 this (n1\<lparr>mChildren := cs\<rparr>))"
  proof (rule by_put_slot [OF b1 tile n1(1) _ cs])
    show "at4 (mChildren n1) i = Inr old" using n n1 by simp
    show "mParent m \<noteq> Some this" if "old = Some oa" "lookup h1 oa = Some m" for oa m
      using that old by auto
  qed
  from this d have b2: "backrefs_by ok h2" by (rule by_destroy)
  from h3 obtain n2 c2 where n2: "lookup h2 this = Some n2" "at4 (mChildren n2) i = Inr c2"
    and r: "case c2 of None \<Rightarrow> h' = h2 | Some ca \<Rightarrow> setParent h2 ca (Some this) = Inr h'"
    by (auto simp: setParentOfChild_Inr)
  from resetSlot_result [OF h2] n2 have c2: "c2 = c" by auto
  show ?thesis
  proof (cases c)
    case None
    with r c2 b2 show ?thesis by simp
  next
    case (Some ca)
    with r c2 have sp: "setParent h2 ca (Some this) = Inr h'" by simp
    then obtain cm where cm: "lookup h2 ca = Some cm" by (auto simp: setParent_Inr)
    from resetSlot_result [OF h2] cm obtain m1 where "lookup h1 ca = Some m1"
      "mTile cm = mTile m1" by blast
    moreover from setParentOfChild_tiles [OF h1 this(1)] obtain m0 where
      "lookup h ca = Some m0" "mTile m1 = mTile m0" by blast
    ultimately have "lookup h ca = Some m0" "mTile cm = mTile m0" by simp_all
    moreover from this have "ok cm = ok m0" by (intro tile_onlyD [OF tile]) simp
    ultimately have "ok cm i" using own [OF Some] by simp
    from b2 tile n2(1) _ cm this sp show ?thesis
      by (rule by_set_parent) (use n2 c2 Some in simp)
  qed
qed

lemma by_releaseChild:
  assumes "backrefs_by ok h" and "tile_only ok" and "releaseChild h this i = Inr (c, h')"
  shows "backrefs_by ok h'"
proof -
  from assms(3) obtain h1 where h1: "setParentOfChild h this i None = Inr h1"
    and h2: "releaseSlot h1 this i = Inr (c, h')"
    by (auto simp: releaseChild_def ebind_eq_Inr)
  from assms(1) h1 have b1: "backrefs_by ok h1" by (rule by_clear_parent_of_child)
  from clear_parent_of_child [OF h1] obtain n n1 old where
    n: "lookup h this = Some n" "at4 (mChildren n) i = Inr old"
    and n1: "lookup h1 this = Some n1" "mChildren n1 = mChildren n"
    and old: "\<forall>oa. old = Some oa \<longrightarrow> (\<exists>m. lookup h1 oa = Some m \<and> mParent m = None)"
    by blast
  from h2 n1 n obtain cs where cs: "put4 (mChildren n1) i None = Inr cs"
    and h': "h' = store h1 this (n1\<lparr>mChildren := cs\<rparr>)"
    by (auto simp: releaseSlot_Inr)
  have "backrefs_by ok (store h1 this (n1\<lparr>mChildren := cs\<rparr>))"
  proof (rule by_put_slot [OF b1 assms(2) n1(1) _ cs])
    show "at4 (mChildren n1) i = Inr old" using n n1 by simp
    show "mParent m \<noteq> Some this" if "old = Some oa" "lookup h1 oa = Some m" for oa m
      using that old by auto
  qed
  with h' show ?thesis by simp
qed


lemma tile_only_any: "tile_only (\<lambda>n i. True)"
  by (simp add: tile_only_def)

lemma tile_only_ownQuadrant: "tile_only ownQuadrant"
  unfolding tile_only_def
  by (auto simp: ownQuadrant_def getTileId_def tile_call_def fun_eq_iff)

lemma backrefs_all: "backrefs h \<longleftrightarrow> (\<forall>a. backref_ok h a)"
proof
  assume b: "backrefs h"
  show "\<forall>a. backref_ok h a"
  proof
    fix a
    show "backref_ok h a"
    proof (cases "a < length h")
      case True
      with b show ?thesis by (simp add: backrefs_def list_all_iff)
    next
      case False
      then show ?thesis by (simp add: backref_ok_def lookup_def)
    qed
  qed
next
  assume "\<forall>a. backref_ok h a"
  then show "backrefs h" by (simp add: backrefs_def list_all_iff)
qed

lemma all_held_all: "all_held h \<longleftrightarrow> (\<forall>a. held_by_parent h a)"
proof
  assume b: "all_held h"
  show "\<forall>a. held_by_parent h a"
  proof
    fix a
    show "held_by_parent h a"
    proof (cases "a < length h")
      case True
      with b show ?thesis by (simp add: all_held_def list_all_iff)
    next
      case False
      then show ?thesis by (simp add: held_by_parent_def lookup_def)
    qed
  qed
next
  assume "\<forall>a. held_by_parent h a"
  then show "all_held h" by (simp add: all_held_def list_all_iff)
qed

lemma backref_ok_iff:
  "backref_ok h a \<longleftrightarrow>
     (\<forall>n p. lookup h a = Some n \<longrightarrow> mParent n = Some p \<longrightarrow>
        (\<exists>pn i. lookup h p = Some pn \<and> ownQuadrant n i \<and> at4 (mChildren pn) i = Inr (Some a)))"
  by (auto simp: backref_ok_def ownQuadrant_def getParent_def getChild_def
      split: option.splits sum.splits)

lemma held_by_parent_iff:
  "held_by_parent h a \<longleftrightarrow>
     (\<forall>n p. lookup h a = Some n \<longrightarrow> mParent n = Some p \<longrightarrow>
        (\<exists>pn i. lookup h p = Some pn \<and> True \<and> at4 (mChildren pn) i = Inr (Some a)))"
  by (auto simp: held_by_parent_def getParent_def holds_iff split: option.splits)

lemma backrefs_iff: "backrefs h \<longleftrightarrow> backrefs_by ownQuadrant h"
  by (simp add: backrefs_all backref_ok_iff backrefs_by_def)

lemma all_held_iff: "all_held h \<longleftrightarrow> backrefs_by (\<lambda>n i. True) h"
  by (simp add: all_held_all held_by_parent_iff backrefs_by_def)

lemma all_held_apply_op:
  assumes "all_held h" and "apply_op h x = Inr h'"
  shows "all_held h'"
proof (cases x)
  case (SetChild this i c)
  with assms show ?thesis
    unfolding all_held_iff by (auto intro: by_setChild [OF _ tile_only_any])
next
  case (ReleaseChild this i)
  with assms obtain r where "releaseChild h this i = Inr r" "h' = snd r"
    by (auto simp: ebind_eq_Inr)
  with assms(1) show ?thesis
    unfolding all_held_iff by (cases r) (auto intro: by_releaseChild [OF _ tile_only_any])
qed

lemma all_held_run_ops:
  "all_held h \<Longrightarrow> run_ops h ops = Inr h' \<Longrightarrow> all_held h'"
proof (induction ops arbitrary: h)
  case Nil
  then show ?case by simp
next
  case (Cons x xs)
  from Cons.prems(2) obtain h1 where "apply_op h x = Inr h1" "run_ops h1 xs = Inr h'"
    by (auto simp: ebind_eq_Inr)
  with Cons.prems(1) Cons.IH show ?case by (blast intro: all_held_apply_op)
qed

lemma backrefs_apply_op:
  assumes "backrefs h" and "own_slot h x" and "apply_op h x = Inr h'"
  shows "backrefs h'"
proof (cases x)
  case (SetChild this i c)
  with assms(3) have run: "setChild h this i c = Inr h'" by simp
  have own: "ownQuadrant cn i" if "c = Some ca" "lookup h ca = Some cn" for ca cn
    using that assms(2) SetChild by simp
  from assms(1) have "backrefs_by ownQuadrant h" by (simp add: backrefs_iff)
  from this tile_only_ownQuadrant run own have "backrefs_by ownQuadrant h'"
    by (rule by_setChild)
  then show ?thesis by (simp add: backrefs_iff)
next
  case (ReleaseChild this i)
  with assms obtain r where "releaseChild h this i = Inr r" "h' = snd r"
    by (auto simp: ebind_eq_Inr)
  then have run: "releaseChild h this i = Inr (fst r, h')" by simp
  from assms(1) have "backrefs_by ownQuadrant h" by (simp add: backrefs_iff)
  from this tile_only_ownQuadrant run have "backrefs_by ownQuadrant h'"
    by (rule by_releaseChild)
  then show ?thesis by (simp add: backrefs_iff)
qed

lemma backrefs_run_ops:
  "backrefs h \<Longrightarrow> own_slots h ops \<Longrightarrow> run_ops h ops = Inr h' \<Longrightarrow> backrefs h'"
proof (induction ops arbitrary: h)
  case Nil
  then show ?case by simp
next
  case (Cons x xs)
  from Cons.prems(3) obtain h1 where h1: "apply_op h x = Inr h1" "run_ops h1 xs = Inr h'"
    by (auto simp: ebind_eq_Inr)
  from Cons.prems(2) h1(1) have own: "own_slot h x" "own_slots h1 xs" by simp_all
  from Cons.prems(1) own(1) h1(1) have "backrefs h1" by (rule backrefs_apply_op)
  from this own(2) h1(2) show ?case by (rule Cons.IH)
qed

text \<open>
  Claim C2, as amended. No dangling back-references. Every sequence of
  \<^verbatim>\<open>setChild\<close> and \<^verbatim>\<open>releaseChild\<close> calls that runs to its end keeps, for
  all living nodes and so for every node reachable from a root, that a node with a
  non-null parent is held by that parent in one of its four slots. It keeps the slot
  being the node's own quadrant, \<^verbatim>\<open>getParent()->getChild(q)\<close> being the node for
  \<^verbatim>\<open>q\<close> the quadrant of its tile, when each \<^verbatim>\<open>setChild(i, c)\<close> of the
  sequence installs \<^verbatim>\<open>c\<close> in the slot of the quadrant of \<^verbatim>\<open>c\<close>. Both
  properties are stated for all living nodes because a detached subtree may be attached
  by a later \<^verbatim>\<open>setChild\<close>.
\<close>

theorem no_dangling_backrefs:
  assumes "run_ops h ops = Inr h'"
  shows "(all_held h \<longrightarrow>
            all_held h' \<and> (\<forall>root n. reachable h' root n \<longrightarrow> held_by_parent h' n)) \<and>
         (backrefs h \<and> own_slots h ops \<longrightarrow>
            backrefs h' \<and> (\<forall>root n. reachable h' root n \<longrightarrow> backref_ok h' n))"
proof (intro conjI impI)
  assume "all_held h"
  from this assms show held: "all_held h'" by (rule all_held_run_ops)
  then show "\<forall>root n. reachable h' root n \<longrightarrow> held_by_parent h' n"
    by (simp add: all_held_all)
next
  assume "backrefs h \<and> own_slots h ops"
  with assms show own: "backrefs h'" by (blast intro: backrefs_run_ops)
  then show "\<forall>root n. reachable h' root n \<longrightarrow> backref_ok h' n"
    by (simp add: backrefs_all)
qed

theorem no_dangling_backrefs_witness:
  "run_ops
     [Some \<lparr>mTile = Some \<lparr>tb_getLevel = 0, tb_getPatchIdx = 0, tb_getTileId = \<lparr>level = 0, patchIdx = 0\<rparr>, tb_getTypeId = ''dem''\<rparr>,
            mChildren = Array4 None None None None, mParent = None\<rparr>,
      Some \<lparr>mTile = Some \<lparr>tb_getLevel = 1, tb_getPatchIdx = 1, tb_getTileId = \<lparr>level = 1, patchIdx = 1\<rparr>, tb_getTypeId = ''dem''\<rparr>,
            mChildren = Array4 None None None None, mParent = None\<rparr>,
      Some \<lparr>mTile = Some \<lparr>tb_getLevel = 2, tb_getPatchIdx = 6, tb_getTileId = \<lparr>level = 2, patchIdx = 6\<rparr>, tb_getTypeId = ''dem''\<rparr>,
            mChildren = Array4 None None None None, mParent = None\<rparr>]
     [SetChild 0 1 (Some 1), SetChild 1 2 (Some 2), ReleaseChild 0 1, SetChild 0 1 (Some 1)]
   = Inr
     [Some \<lparr>mTile = Some \<lparr>tb_getLevel = 0, tb_getPatchIdx = 0, tb_getTileId = \<lparr>level = 0, patchIdx = 0\<rparr>, tb_getTypeId = ''dem''\<rparr>,
            mChildren = Array4 None (Some 1) None None, mParent = None\<rparr>,
      Some \<lparr>mTile = Some \<lparr>tb_getLevel = 1, tb_getPatchIdx = 1, tb_getTileId = \<lparr>level = 1, patchIdx = 1\<rparr>, tb_getTypeId = ''dem''\<rparr>,
            mChildren = Array4 None None (Some 2) None, mParent = (Some 0)\<rparr>,
      Some \<lparr>mTile = Some \<lparr>tb_getLevel = 2, tb_getPatchIdx = 6, tb_getTileId = \<lparr>level = 2, patchIdx = 6\<rparr>, tb_getTypeId = ''dem''\<rparr>,
            mChildren = Array4 None None None None, mParent = (Some 1)\<rparr>] \<and>
   own_slots
     [Some \<lparr>mTile = Some \<lparr>tb_getLevel = 0, tb_getPatchIdx = 0, tb_getTileId = \<lparr>level = 0, patchIdx = 0\<rparr>, tb_getTypeId = ''dem''\<rparr>,
            mChildren = Array4 None None None None, mParent = None\<rparr>,
      Some \<lparr>mTile = Some \<lparr>tb_getLevel = 1, tb_getPatchIdx = 1, tb_getTileId = \<lparr>level = 1, patchIdx = 1\<rparr>, tb_getTypeId = ''dem''\<rparr>,
            mChildren = Array4 None None None None, mParent = None\<rparr>,
      Some \<lparr>mTile = Some \<lparr>tb_getLevel = 2, tb_getPatchIdx = 6, tb_getTileId = \<lparr>level = 2, patchIdx = 6\<rparr>, tb_getTypeId = ''dem''\<rparr>,
            mChildren = Array4 None None None None, mParent = None\<rparr>]
     [SetChild 0 1 (Some 1), SetChild 1 2 (Some 2), ReleaseChild 0 1, SetChild 0 1 (Some 1)] \<and>
   all_held
     [Some \<lparr>mTile = Some \<lparr>tb_getLevel = 0, tb_getPatchIdx = 0, tb_getTileId = \<lparr>level = 0, patchIdx = 0\<rparr>, tb_getTypeId = ''dem''\<rparr>,
            mChildren = Array4 None (Some 1) None None, mParent = None\<rparr>,
      Some \<lparr>mTile = Some \<lparr>tb_getLevel = 1, tb_getPatchIdx = 1, tb_getTileId = \<lparr>level = 1, patchIdx = 1\<rparr>, tb_getTypeId = ''dem''\<rparr>,
            mChildren = Array4 None None (Some 2) None, mParent = (Some 0)\<rparr>,
      Some \<lparr>mTile = Some \<lparr>tb_getLevel = 2, tb_getPatchIdx = 6, tb_getTileId = \<lparr>level = 2, patchIdx = 6\<rparr>, tb_getTypeId = ''dem''\<rparr>,
            mChildren = Array4 None None None None, mParent = (Some 1)\<rparr>] \<and>
   backrefs
     [Some \<lparr>mTile = Some \<lparr>tb_getLevel = 0, tb_getPatchIdx = 0, tb_getTileId = \<lparr>level = 0, patchIdx = 0\<rparr>, tb_getTypeId = ''dem''\<rparr>,
            mChildren = Array4 None (Some 1) None None, mParent = None\<rparr>,
      Some \<lparr>mTile = Some \<lparr>tb_getLevel = 1, tb_getPatchIdx = 1, tb_getTileId = \<lparr>level = 1, patchIdx = 1\<rparr>, tb_getTypeId = ''dem''\<rparr>,
            mChildren = Array4 None None (Some 2) None, mParent = (Some 0)\<rparr>,
      Some \<lparr>mTile = Some \<lparr>tb_getLevel = 2, tb_getPatchIdx = 6, tb_getTileId = \<lparr>level = 2, patchIdx = 6\<rparr>, tb_getTypeId = ''dem''\<rparr>,
            mChildren = Array4 None None None None, mParent = (Some 1)\<rparr>]"
proof -
  let ?h = "[Some \<lparr>mTile = Some \<lparr>tb_getLevel = 0, tb_getPatchIdx = 0, tb_getTileId = \<lparr>level = 0, patchIdx = 0\<rparr>, tb_getTypeId = ''dem''\<rparr>,
            mChildren = Array4 None None None None, mParent = None\<rparr>,
      Some \<lparr>mTile = Some \<lparr>tb_getLevel = 1, tb_getPatchIdx = 1, tb_getTileId = \<lparr>level = 1, patchIdx = 1\<rparr>, tb_getTypeId = ''dem''\<rparr>,
            mChildren = Array4 None None None None, mParent = None\<rparr>,
      Some \<lparr>mTile = Some \<lparr>tb_getLevel = 2, tb_getPatchIdx = 6, tb_getTileId = \<lparr>level = 2, patchIdx = 6\<rparr>, tb_getTypeId = ''dem''\<rparr>,
            mChildren = Array4 None None None None, mParent = None\<rparr>]"
  let ?h' = "[Some \<lparr>mTile = Some \<lparr>tb_getLevel = 0, tb_getPatchIdx = 0, tb_getTileId = \<lparr>level = 0, patchIdx = 0\<rparr>, tb_getTypeId = ''dem''\<rparr>,
            mChildren = Array4 None (Some 1) None None, mParent = None\<rparr>,
      Some \<lparr>mTile = Some \<lparr>tb_getLevel = 1, tb_getPatchIdx = 1, tb_getTileId = \<lparr>level = 1, patchIdx = 1\<rparr>, tb_getTypeId = ''dem''\<rparr>,
            mChildren = Array4 None None (Some 2) None, mParent = (Some 0)\<rparr>,
      Some \<lparr>mTile = Some \<lparr>tb_getLevel = 2, tb_getPatchIdx = 6, tb_getTileId = \<lparr>level = 2, patchIdx = 6\<rparr>, tb_getTypeId = ''dem''\<rparr>,
            mChildren = Array4 None None None None, mParent = (Some 1)\<rparr>]"
  let ?ops = "[SetChild 0 1 (Some 1), SetChild 1 2 (Some 2), ReleaseChild 0 1, SetChild 0 1 (Some 1)]"
  have run: "run_ops ?h ?ops = Inr ?h'" by code_simp
  have start: "all_held ?h" "backrefs ?h" by code_simp+
  have own: "own_slots ?h ?ops" by code_simp
  from no_dangling_backrefs [OF run] start own run show ?thesis by blast
qed

text \<open>
  Claim C2, as stated for every sequence, fails: \<^verbatim>\<open>setChild\<close> puts the node where
  it is told to. A node of quadrant 1 installed in slot 3 is reachable from the root and
  has the root as its parent, but \<^verbatim>\<open>getChild\<close> of its own quadrant is not the node.
\<close>

theorem backrefs_wrong_slot:
  "backrefs
     [Some \<lparr>mTile = Some \<lparr>tb_getLevel = 0, tb_getPatchIdx = 0, tb_getTileId = \<lparr>level = 0, patchIdx = 0\<rparr>, tb_getTypeId = ''dem''\<rparr>,
            mChildren = Array4 None None None None, mParent = None\<rparr>,
      Some \<lparr>mTile = Some \<lparr>tb_getLevel = 1, tb_getPatchIdx = 1, tb_getTileId = \<lparr>level = 1, patchIdx = 1\<rparr>, tb_getTypeId = ''dem''\<rparr>,
            mChildren = Array4 None None None None, mParent = None\<rparr>] \<and>
   run_ops
     [Some \<lparr>mTile = Some \<lparr>tb_getLevel = 0, tb_getPatchIdx = 0, tb_getTileId = \<lparr>level = 0, patchIdx = 0\<rparr>, tb_getTypeId = ''dem''\<rparr>,
            mChildren = Array4 None None None None, mParent = None\<rparr>,
      Some \<lparr>mTile = Some \<lparr>tb_getLevel = 1, tb_getPatchIdx = 1, tb_getTileId = \<lparr>level = 1, patchIdx = 1\<rparr>, tb_getTypeId = ''dem''\<rparr>,
            mChildren = Array4 None None None None, mParent = None\<rparr>]
     [SetChild 0 3 (Some 1)]
   = Inr
     [Some \<lparr>mTile = Some \<lparr>tb_getLevel = 0, tb_getPatchIdx = 0, tb_getTileId = \<lparr>level = 0, patchIdx = 0\<rparr>, tb_getTypeId = ''dem''\<rparr>,
            mChildren = Array4 None None None (Some 1), mParent = None\<rparr>,
      Some \<lparr>mTile = Some \<lparr>tb_getLevel = 1, tb_getPatchIdx = 1, tb_getTileId = \<lparr>level = 1, patchIdx = 1\<rparr>, tb_getTypeId = ''dem''\<rparr>,
            mChildren = Array4 None None None None, mParent = (Some 0)\<rparr>] \<and>
   reachable
     [Some \<lparr>mTile = Some \<lparr>tb_getLevel = 0, tb_getPatchIdx = 0, tb_getTileId = \<lparr>level = 0, patchIdx = 0\<rparr>, tb_getTypeId = ''dem''\<rparr>,
            mChildren = Array4 None None None (Some 1), mParent = None\<rparr>,
      Some \<lparr>mTile = Some \<lparr>tb_getLevel = 1, tb_getPatchIdx = 1, tb_getTileId = \<lparr>level = 1, patchIdx = 1\<rparr>, tb_getTypeId = ''dem''\<rparr>,
            mChildren = Array4 None None None None, mParent = (Some 0)\<rparr>] 0 1 \<and>
   \<not> backref_ok
     [Some \<lparr>mTile = Some \<lparr>tb_getLevel = 0, tb_getPatchIdx = 0, tb_getTileId = \<lparr>level = 0, patchIdx = 0\<rparr>, tb_getTypeId = ''dem''\<rparr>,
            mChildren = Array4 None None None (Some 1), mParent = None\<rparr>,
      Some \<lparr>mTile = Some \<lparr>tb_getLevel = 1, tb_getPatchIdx = 1, tb_getTileId = \<lparr>level = 1, patchIdx = 1\<rparr>, tb_getTypeId = ''dem''\<rparr>,
            mChildren = Array4 None None None None, mParent = (Some 0)\<rparr>] 1"
proof -
  let ?g = "[Some \<lparr>mTile = Some \<lparr>tb_getLevel = 0, tb_getPatchIdx = 0, tb_getTileId = \<lparr>level = 0, patchIdx = 0\<rparr>, tb_getTypeId = ''dem''\<rparr>,
            mChildren = Array4 None None None None, mParent = None\<rparr>,
      Some \<lparr>mTile = Some \<lparr>tb_getLevel = 1, tb_getPatchIdx = 1, tb_getTileId = \<lparr>level = 1, patchIdx = 1\<rparr>, tb_getTypeId = ''dem''\<rparr>,
            mChildren = Array4 None None None None, mParent = None\<rparr>]"
  let ?g' = "[Some \<lparr>mTile = Some \<lparr>tb_getLevel = 0, tb_getPatchIdx = 0, tb_getTileId = \<lparr>level = 0, patchIdx = 0\<rparr>, tb_getTypeId = ''dem''\<rparr>,
            mChildren = Array4 None None None (Some 1), mParent = None\<rparr>,
      Some \<lparr>mTile = Some \<lparr>tb_getLevel = 1, tb_getPatchIdx = 1, tb_getTileId = \<lparr>level = 1, patchIdx = 1\<rparr>, tb_getTypeId = ''dem''\<rparr>,
            mChildren = Array4 None None None None, mParent = (Some 0)\<rparr>]"
  have a: "backrefs ?g" by code_simp
  have b: "run_ops ?g [SetChild 0 3 (Some 1)] = Inr ?g'" by code_simp
  have look: "lookup ?g' 0 = Some \<lparr>mTile = Some \<lparr>tb_getLevel = 0, tb_getPatchIdx = 0, tb_getTileId = \<lparr>level = 0, patchIdx = 0\<rparr>, tb_getTypeId = ''dem''\<rparr>,
            mChildren = Array4 None None None (Some 1), mParent = None\<rparr>"
    by (simp add: lookup_def)
  from look have "reachable ?g' 0 0" by (rule reachable.root)
  from this look have c: "reachable ?g' 0 1"
    by (rule reachable.child [where q = 3]) (simp add: getChild_def)
  have d: "\<not> backref_ok ?g' 1" by code_simp
  from a b c d show ?thesis by blast
qed

section \<open>The three steps of setChild\<close>







section \<open>The prune phase\<close>










section \<open>The merge phase\<close>


lemma childIdxOf_range: "0 \<le> childIdxOf t \<and> childIdxOf t \<le> 3"
proof -
  have "uint (take_bit 2 (patchIdx t)) = take_bit 2 (uint (patchIdx t))"
    by (simp add: unsigned_take_bit_eq)
  moreover have "take_bit 2 (uint (patchIdx t)) < 2 ^ 2"
    by (rule take_bit_int_less_exp)
  ultimately show ?thesis by (simp add: childIdxOf_def)
qed

lemma setChild_empty_slot:
  assumes "lookup h this = Some n" and "getChild n i = Inr None"
    and "lookup h c = Some cn" and "c \<noteq> this"
  shows "\<exists>cs. put4 (mChildren n) i (Some c) = Inr cs \<and>
           setChild h this i (Some c) =
             Inr (store (store h this (n\<lparr>mChildren := cs\<rparr>)) c (cn\<lparr>mParent := Some this\<rparr>))"
proof -
  from assms(2) have at: "at4 (mChildren n) i = Inr None" by (simp add: getChild_def)
  from put4_in_range [OF at, of "Some c"] obtain cs
    where cs: "put4 (mChildren n) i (Some c) = Inr cs" by blast
  let ?h2 = "store h this (n\<lparr>mChildren := cs\<rparr>)"
  from assms(1) at have s1: "setParentOfChild h this i None = Inr h"
    by (simp add: setParentOfChild_def deref_live)
  from assms(1) at cs have s2: "resetSlot h this i (Some c) = Inr ?h2"
    by (simp add: resetSlot_def deref_live)
  from assms(1) have n2: "lookup ?h2 this = Some (n\<lparr>mChildren := cs\<rparr>)"
    by (simp add: lookup_store_live)
  from assms(1,3,4) have c2: "lookup ?h2 c = Some cn" by (simp add: lookup_store_live)
  from at4_put4 [OF cs, of i] have "at4 cs i = Inr (Some c)" by simp
  with n2 c2 have s3: "setParentOfChild ?h2 this i (Some this) =
      Inr (store ?h2 c (cn\<lparr>mParent := Some this\<rparr>))"
    by (simp add: setParentOfChild_def deref_live setParent_live)
  from s1 s2 s3 cs show ?thesis by (simp add: setChild_def)
qed

lemma insertNode_deferred:
  assumes "lookup (mem t) c = Some cn" and "getTileId cn = Inr cid" and "level cid \<noteq> 0"
    and "mRdMap t (parentTileId cid) = None"
  shows "insertNode t c = Inr (DeferredAsUnmerged, t)"
  using assms by (simp add: insertNode_def deref_live)

lemma linked_intro:
  assumes "lookup (mem t) p = Some pn" and "lookup (mem t) c = Some cn"
    and "getTileId pn = Inr pid" and "getTileId cn = Inr cid"
    and "mRdMap t pid = Some p" and "mRdMap t cid = Some c" and "pid = parentTileId cid"
    and "getChild pn (childIdxOf cid) = Inr (Some c)" and "getParent cn = Some p"
  shows "linked t p c"
  using assms by (simp add: linked_def)

lemma getTileId_update [simp]:
  "getTileId (n\<lparr>mChildren := cs\<rparr>) = getTileId n"
  "getTileId (n\<lparr>mParent := p\<rparr>) = getTileId n"
  by (simp_all add: getTileId_def tile_call_def)

lemma insertNode_child:
  assumes p: "lookup (mem t) p = Some pn" "getTileId pn = Inr pid"
      "getChild pn (childIdxOf cid) = Inr None" "mRdMap t pid = Some p"
    and c: "lookup (mem t) c = Some cn" "getTileId cn = Inr cid"
    and rel: "pid = parentTileId cid" "level cid \<noteq> 0" "p \<noteq> c"
  shows "\<exists>t'. insertNode t c = Inr (Inserted, t') \<and> linked t' p c \<and>
           mUnmergedNodes t' = mUnmergedNodes t \<and> mLoadedNodes t' = mLoadedNodes t"
proof -
  from setChild_empty_slot [OF p(1) p(3) c(1)] rel(3) obtain cs where
    cs: "put4 (mChildren pn) (childIdxOf cid) (Some c) = Inr cs"
    and sc: "setChild (mem t) p (childIdxOf cid) (Some c) =
        Inr (store (store (mem t) p (pn\<lparr>mChildren := cs\<rparr>)) c (cn\<lparr>mParent := Some p\<rparr>))"
    by auto
  let ?h = "store (store (mem t) p (pn\<lparr>mChildren := cs\<rparr>)) c (cn\<lparr>mParent := Some p\<rparr>)"
  let ?t = "registerNode (t\<lparr>mem := ?h\<rparr>) cid c"
  from p c rel sc have ins: "insertNode t c = Inr (Inserted, ?t)"
    by (simp add: insertNode_def deref_live)
  from rel(1) have "level pid = level cid - 1" by (simp add: parentTileId_def)
  then have ne: "pid \<noteq> cid" by auto
  have hp: "lookup ?h p = Some (pn\<lparr>mChildren := cs\<rparr>)"
    using p(1) c(1) rel(3) by (simp add: lookup_store_live)
  have hc: "lookup ?h c = Some (cn\<lparr>mParent := Some p\<rparr>)"
    using p(1) c(1) rel(3) by (simp add: lookup_store_live)
  from at4_put4 [OF cs, of "childIdxOf cid"]
  have slot: "getChild (pn\<lparr>mChildren := cs\<rparr>) (childIdxOf cid) = Inr (Some c)"
    by (simp add: getChild_def)
  have "linked ?t p c"
    by (rule linked_intro [where pn = "pn\<lparr>mChildren := cs\<rparr>" and cn = "cn\<lparr>mParent := Some p\<rparr>"
          and pid = pid and cid = cid])
       (use hp hc p c rel ne slot in \<open>simp_all add: registerNode_def getParent_def\<close>)
  with ins show ?thesis by (auto simp: registerNode_def)
qed


lemma insertNode_parent:
  assumes p: "lookup (mem t) p = Some pn" "getTileId pn = Inr pid" "getChild pn q = Inr None"
    and place: "mergeable t p"
    and c: "lookup (mem t) c = Some cn" "p \<noteq> c" "mRdMap t (parentTileId pid) \<noteq> Some c"
  shows "\<exists>t' pn'. insertNode t p = Inr (Inserted, t') \<and> mRdMap t' pid = Some p \<and>
           lookup (mem t') p = Some pn' \<and> getTileId pn' = Inr pid \<and>
           getChild pn' q = Inr None \<and> lookup (mem t') c = Some cn \<and>
           mUnmergedNodes t' = mUnmergedNodes t \<and> mLoadedNodes t' = mLoadedNodes t \<and>
           mParams t' = mParams t \<and> mFrameCount t' = mFrameCount t"
proof (cases "level pid = 0")
  case True
  with p place have free: "mTree t (patchIdx pid) = None"
    by (simp add: mergeable_def)
  let ?t = "registerNode (t\<lparr>mTree := (mTree t)(patchIdx pid \<mapsto> p)\<rparr>) pid p"
  from p True free have "insertNode t p = Inr (Inserted, ?t)"
    by (simp add: insertNode_def deref_live)
  with p c show ?thesis by (auto simp: registerNode_def)
next
  case False
  with p place obtain g gn where g: "mRdMap t (parentTileId pid) = Some g" "g \<noteq> p"
    "lookup (mem t) g = Some gn" "getChild gn (childIdxOf pid) = Inr None"
    by (auto simp: mergeable_def split: option.splits)
  with c have gc: "g \<noteq> c" by auto
  from setChild_empty_slot [OF g(3) g(4) p(1)] g(2) obtain cs where
    cs: "put4 (mChildren gn) (childIdxOf pid) (Some p) = Inr cs"
    and sc: "setChild (mem t) g (childIdxOf pid) (Some p) =
        Inr (store (store (mem t) g (gn\<lparr>mChildren := cs\<rparr>)) p (pn\<lparr>mParent := Some g\<rparr>))"
    by auto
  let ?h = "store (store (mem t) g (gn\<lparr>mChildren := cs\<rparr>)) p (pn\<lparr>mParent := Some g\<rparr>)"
  let ?t = "registerNode (t\<lparr>mem := ?h\<rparr>) pid p"
  from p False g sc have ins: "insertNode t p = Inr (Inserted, ?t)"
    by (simp add: insertNode_def deref_live)
  have hp: "lookup ?h p = Some (pn\<lparr>mParent := Some g\<rparr>)"
    using p(1) g by (simp add: lookup_store_live)
  have hc: "lookup ?h c = Some cn"
    using p(1) g c gc by (simp add: lookup_store_live)
  have "getChild (pn\<lparr>mParent := Some g\<rparr>) q = Inr None"
    using p(3) by (simp add: getChild_def)
  with ins hp hc p(2) show ?thesis by (auto simp: registerNode_def)
qed

lemma run_append: "run t (xs @ ys) = ebind (run t xs) (\<lambda>t'. run t' ys)"
  by (induction xs arbitrary: t) (simp_all add: ebind_def split: sum.splits)

lemma linked_cong:
  "mem t' = mem t \<Longrightarrow> mRdMap t' = mRdMap t \<Longrightarrow> linked t' p c = linked t p c"
  by (simp add: linked_def cong: option.case_cong sum.case_cong prod.case_cong)

lemma mergeable_cong:
  "mem t' = mem t \<Longrightarrow> mRdMap t' = mRdMap t \<Longrightarrow> mTree t' = mTree t \<Longrightarrow>
     mergeable t' p = mergeable t p"
  by (simp add: mergeable_def cong: option.case_cong sum.case_cong if_cong)

lemma merge_idle:
  assumes "mLoadedNodes t = []" and "mUnmergedNodes t = [na]"
    and "lookup (mem t) (mNode na) = Some cn" and "getTileId cn = Inr cid" and "level cid \<noteq> 0"
    and "mRdMap t (parentTileId cid) = None"
    and "f - mFrame na \<le> graceFrames (mParams t)"
  shows "merge (setFrameCount t f) = Inr (t\<lparr>mFrameCount := f\<rparr>)"
proof -
  let ?t0 = "t\<lparr>mFrameCount := f, mLoadedNodes := [], mUnmergedNodes := []\<rparr>"
  from assms have "insertNode ?t0 (mNode na) = Inr (DeferredAsUnmerged, ?t0)"
    by (intro insertNode_deferred [where cn = cn and cid = cid]) simp_all
  with assms have "merge (setFrameCount t f) = Inr (?t0\<lparr>mUnmergedNodes := [na]\<rparr>)"
    by (simp add: merge_def setFrameCount_def)
  moreover from assms have "?t0\<lparr>mUnmergedNodes := [na]\<rparr> = t\<lparr>mFrameCount := f\<rparr>"
    by (cases t) simp
  ultimately show ?thesis by simp
qed

lemma run_idle:
  assumes "mLoadedNodes t = []" and "mUnmergedNodes t = [na]"
    and "lookup (mem t) (mNode na) = Some cn" and "getTileId cn = Inr cid" and "level cid \<noteq> 0"
    and "mRdMap t (parentTileId cid) = None"
    and "\<forall>f \<in> set fs. f - mFrame na \<le> graceFrames (mParams t)"
  shows "\<exists>t'. run t (map Update fs) = Inr t' \<and> mLoadedNodes t' = [] \<and>
           mUnmergedNodes t' = [na] \<and> mem t' = mem t \<and> mRdMap t' = mRdMap t \<and>
           mTree t' = mTree t \<and> mParams t' = mParams t"
  using assms
proof (induction fs arbitrary: t)
  case Nil
  then show ?case by simp
next
  case (Cons f fs)
  from Cons.prems have m: "merge (setFrameCount t f) = Inr (t\<lparr>mFrameCount := f\<rparr>)"
    by (intro merge_idle [where cn = cn and cid = cid and na = na]) simp_all
  from Cons.prems have "\<exists>t'. run (t\<lparr>mFrameCount := f\<rparr>) (map Update fs) = Inr t' \<and>
      mLoadedNodes t' = [] \<and> mUnmergedNodes t' = [na] \<and>
      mem t' = mem (t\<lparr>mFrameCount := f\<rparr>) \<and> mRdMap t' = mRdMap (t\<lparr>mFrameCount := f\<rparr>) \<and>
      mTree t' = mTree (t\<lparr>mFrameCount := f\<rparr>) \<and> mParams t' = mParams (t\<lparr>mFrameCount := f\<rparr>)"
    by (intro Cons.IH) simp_all
  with m show ?case by simp
qed


lemma merge_nothing:
  assumes "mLoadedNodes t = []" and "mUnmergedNodes t = []"
  shows "\<exists>t'. merge (setFrameCount t f) = Inr t' \<and> mem t' = mem t \<and> mRdMap t' = mRdMap t"
  using assms by (simp add: merge_def setFrameCount_def)

lemma merge_defer_first:
  assumes "mLoadedNodes t = [c]" and "mUnmergedNodes t = []"
    and "lookup (mem t) c = Some cn" and "getTileId cn = Inr cid" and "level cid \<noteq> 0"
    and "mRdMap t (parentTileId cid) = None"
  shows "\<exists>t'. merge (setFrameCount t f) = Inr t' \<and> mLoadedNodes t' = [] \<and>
           mUnmergedNodes t' = [\<lparr>mNode = c, mFrame = f\<rparr>] \<and> mem t' = mem t \<and>
           mRdMap t' = mRdMap t \<and> mTree t' = mTree t \<and> mParams t' = mParams t"
proof -
  let ?t0 = "t\<lparr>mFrameCount := f, mLoadedNodes := [], mUnmergedNodes := []\<rparr>"
  from assms have "insertNode ?t0 c = Inr (DeferredAsUnmerged, ?t0)"
    by (intro insertNode_deferred [where cn = cn and cid = cid]) simp_all
  with assms show ?thesis
    by (simp add: merge_def setFrameCount_def storeUnmerged_def)
qed

lemma merge_retry_child:
  assumes "mLoadedNodes t = []" and "mUnmergedNodes t = [na]" and "mNode na = c"
    and p: "lookup (mem t) p = Some pn" "getTileId pn = Inr pid"
      "getChild pn (childIdxOf cid) = Inr None" "mRdMap t pid = Some p"
    and c: "lookup (mem t) c = Some cn" "getTileId cn = Inr cid"
    and rel: "pid = parentTileId cid" "level cid \<noteq> 0" "p \<noteq> c"
  shows "\<exists>t'. merge (setFrameCount t f) = Inr t' \<and> linked t' p c \<and>
           mLoadedNodes t' = [] \<and> mUnmergedNodes t' = []"
proof -
  let ?t0 = "t\<lparr>mFrameCount := f, mLoadedNodes := [], mUnmergedNodes := []\<rparr>"
  have "\<exists>t'. insertNode ?t0 c = Inr (Inserted, t') \<and> linked t' p c \<and>
           mUnmergedNodes t' = mUnmergedNodes ?t0 \<and> mLoadedNodes t' = mLoadedNodes ?t0"
    by (rule insertNode_child [where pn = pn and pid = pid and cn = cn and cid = cid])
      (use p c rel in simp_all)
  then obtain t' where "insertNode ?t0 c = Inr (Inserted, t')" "linked t' p c"
    "mUnmergedNodes t' = []" "mLoadedNodes t' = []"
    by auto
  with assms(1-3) show ?thesis
    by (simp add: merge_def setFrameCount_def)
qed

lemma merge_parent_then_child:
  assumes "mLoadedNodes t = [p]" and "mUnmergedNodes t = [na]" and "mNode na = c"
    and c: "lookup (mem t) c = Some cn" "getTileId cn = Inr cid" "level cid \<noteq> 0"
    and p: "lookup (mem t) p = Some pn" "getTileId pn = Inr (parentTileId cid)"
      "getChild pn (childIdxOf cid) = Inr None"
    and ne: "p \<noteq> c"
    and place: "mergeable t p" "mRdMap t (parentTileId (parentTileId cid)) \<noteq> Some c"
  shows "\<exists>t'. merge (setFrameCount t f) = Inr t' \<and> linked t' p c \<and>
           mLoadedNodes t' = [] \<and> mUnmergedNodes t' = []"
proof -
  let ?t0 = "t\<lparr>mFrameCount := f, mLoadedNodes := [], mUnmergedNodes := []\<rparr>"
  have "mergeable ?t0 p = mergeable t p" by (rule mergeable_cong) simp_all
  with place(1) have m0: "mergeable ?t0 p" by simp
  have "\<exists>t' pn'. insertNode ?t0 p = Inr (Inserted, t') \<and>
           mRdMap t' (parentTileId cid) = Some p \<and>
           lookup (mem t') p = Some pn' \<and> getTileId pn' = Inr (parentTileId cid) \<and>
           getChild pn' (childIdxOf cid) = Inr None \<and> lookup (mem t') c = Some cn \<and>
           mUnmergedNodes t' = mUnmergedNodes ?t0 \<and> mLoadedNodes t' = mLoadedNodes ?t0 \<and>
           mParams t' = mParams ?t0 \<and> mFrameCount t' = mFrameCount ?t0"
    by (rule insertNode_parent [where pn = pn and cn = cn])
      (use p c ne place m0 in simp_all)
  then obtain t1 pn' where t1: "insertNode ?t0 p = Inr (Inserted, t1)"
    "mRdMap t1 (parentTileId cid) = Some p" "lookup (mem t1) p = Some pn'"
    "getTileId pn' = Inr (parentTileId cid)" "getChild pn' (childIdxOf cid) = Inr None"
    "lookup (mem t1) c = Some cn" "mUnmergedNodes t1 = []" "mLoadedNodes t1 = []"
    by auto
  have "\<exists>t'. insertNode t1 c = Inr (Inserted, t') \<and> linked t' p c \<and>
           mUnmergedNodes t' = mUnmergedNodes t1 \<and> mLoadedNodes t' = mLoadedNodes t1"
    by (rule insertNode_child [where pn = pn' and pid = "parentTileId cid" and cn = cn
          and cid = cid])
      (use t1 c ne in simp_all)
  then obtain t2 where "insertNode t1 c = Inr (Inserted, t2)" "linked t2 p c"
    "mUnmergedNodes t2 = []" "mLoadedNodes t2 = []"
    using t1 by auto
  with t1(1) assms(1-3) show ?thesis
    by (simp add: merge_def setFrameCount_def)
qed

lemma merge_both:
  assumes "mLoadedNodes t = [c, p]" and "mUnmergedNodes t = []"
    and c: "lookup (mem t) c = Some cn" "getTileId cn = Inr cid" "level cid \<noteq> 0"
    and p: "lookup (mem t) p = Some pn" "getTileId pn = Inr (parentTileId cid)"
      "getChild pn (childIdxOf cid) = Inr None"
    and ne: "p \<noteq> c"
    and absent: "mRdMap t (parentTileId cid) = None"
    and place: "mergeable t p" "mRdMap t (parentTileId (parentTileId cid)) \<noteq> Some c"
  shows "\<exists>t' pn'. merge (setFrameCount t f) = Inr t' \<and>
           mLoadedNodes t' = [] \<and> mUnmergedNodes t' = [\<lparr>mNode = c, mFrame = f\<rparr>] \<and>
           mRdMap t' (parentTileId cid) = Some p \<and>
           lookup (mem t') p = Some pn' \<and> getTileId pn' = Inr (parentTileId cid) \<and>
           getChild pn' (childIdxOf cid) = Inr None \<and> lookup (mem t') c = Some cn"
proof -
  let ?t0 = "t\<lparr>mFrameCount := f, mLoadedNodes := [], mUnmergedNodes := []\<rparr>"
  let ?t1 = "storeUnmerged ?t0 c"
  from c absent have d: "insertNode ?t0 c = Inr (DeferredAsUnmerged, ?t0)"
    by (intro insertNode_deferred [where cn = cn and cid = cid]) simp_all
  have "mergeable ?t1 p = mergeable t p"
    by (rule mergeable_cong) (simp_all add: storeUnmerged_def)
  with place(1) have m1: "mergeable ?t1 p" by simp
  have "\<exists>t' pn'. insertNode ?t1 p = Inr (Inserted, t') \<and>
           mRdMap t' (parentTileId cid) = Some p \<and>
           lookup (mem t') p = Some pn' \<and> getTileId pn' = Inr (parentTileId cid) \<and>
           getChild pn' (childIdxOf cid) = Inr None \<and> lookup (mem t') c = Some cn \<and>
           mUnmergedNodes t' = mUnmergedNodes ?t1 \<and> mLoadedNodes t' = mLoadedNodes ?t1 \<and>
           mParams t' = mParams ?t1 \<and> mFrameCount t' = mFrameCount ?t1"
    by (rule insertNode_parent [where pn = pn and cn = cn])
      (use p c ne place m1 in \<open>simp_all add: storeUnmerged_def\<close>)
  then obtain t2 pn' where t2: "insertNode ?t1 p = Inr (Inserted, t2)"
    "mRdMap t2 (parentTileId cid) = Some p" "lookup (mem t2) p = Some pn'"
    "getTileId pn' = Inr (parentTileId cid)" "getChild pn' (childIdxOf cid) = Inr None"
    "lookup (mem t2) c = Some cn" "mUnmergedNodes t2 = [\<lparr>mNode = c, mFrame = f\<rparr>]"
    "mLoadedNodes t2 = []"
    by (auto simp: storeUnmerged_def)
  from d t2(1) assms(1,2) have "merge (setFrameCount t f) = Inr t2"
    by (simp add: merge_def setFrameCount_def)
  with t2 show ?thesis by blast
qed



text \<open>
  Claim C1. Out-of-order merge: the node of a child tile is delivered before the node of
  its parent tile, the parent not being in the tree yet. Whatever number of updates
  drain and merge while the parent is still missing (within the grace period of the
  child), once the parent has been delivered and merged into its free place, the updates
  leave both nodes in the tree: each is in the \<^verbatim>\<open>RenderDataMap\<close>, the parent holds
  the child in the slot of the child's quadrant and the child's back-reference is the
  parent. The second update after the delivery of the parent covers the case in which
  both nodes are drained by the same update.
\<close>

theorem merge_out_of_order:
  assumes idle: "mLoadedNodes tm = []" "mUnmergedNodes tm = []"
    and c: "lookup (mem tm) child = Some cn" "getTileId cn = Inr cid" "level cid \<noteq> 0"
    and p: "lookup (mem tm) parent = Some pn" "getTileId pn = Inr (parentTileId cid)"
      "getChild pn (childIdxOf cid) = Inr None"
    and ne: "parent \<noteq> child"
    and absent: "mRdMap tm (parentTileId cid) = None"
    and place: "mergeable tm parent"
      "mRdMap tm (parentTileId (parentTileId cid)) \<noteq> Some child"
    and grace: "\<forall>f \<in> set (tl fs). f - hd fs \<le> graceFrames (mParams tm)"
  shows "\<exists>tm'. run tm (Loaded child # map Update fs @ [Loaded parent, Update f1, Update f2])
             = Inr tm' \<and> linked tm' parent child"
proof (cases fs)
  case Nil
  let ?t = "onNodeLoaded (onNodeLoaded tm child) parent"
  have "mergeable ?t parent = mergeable tm parent"
    by (rule mergeable_cong) (simp_all add: onNodeLoaded_def)
  with place(1) have m: "mergeable ?t parent" by simp
  have "\<exists>t' pn'. merge (setFrameCount ?t f1) = Inr t' \<and>
           mLoadedNodes t' = [] \<and> mUnmergedNodes t' = [\<lparr>mNode = child, mFrame = f1\<rparr>] \<and>
           mRdMap t' (parentTileId cid) = Some parent \<and>
           lookup (mem t') parent = Some pn' \<and> getTileId pn' = Inr (parentTileId cid) \<and>
           getChild pn' (childIdxOf cid) = Inr None \<and> lookup (mem t') child = Some cn"
    by (rule merge_both [where pn = pn])
      (use idle c p ne absent place(2) m in \<open>simp_all add: onNodeLoaded_def\<close>)
  then obtain t1 pn' where t1: "merge (setFrameCount ?t f1) = Inr t1"
    "mLoadedNodes t1 = []" "mUnmergedNodes t1 = [\<lparr>mNode = child, mFrame = f1\<rparr>]"
    "mRdMap t1 (parentTileId cid) = Some parent"
    "lookup (mem t1) parent = Some pn'" "getTileId pn' = Inr (parentTileId cid)"
    "getChild pn' (childIdxOf cid) = Inr None" "lookup (mem t1) child = Some cn"
    by blast
  have "\<exists>t'. merge (setFrameCount t1 f2) = Inr t' \<and> linked t' parent child \<and>
           mLoadedNodes t' = [] \<and> mUnmergedNodes t' = []"
    by (rule merge_retry_child [where na = "\<lparr>mNode = child, mFrame = f1\<rparr>" and pn = pn'
          and pid = "parentTileId cid" and cn = cn and cid = cid])
      (use t1 c ne in simp_all)
  then obtain t2 where "merge (setFrameCount t1 f2) = Inr t2" "linked t2 parent child"
    by blast
  with t1(1) Nil show ?thesis by simp
next
  case (Cons f0 rest)
  let ?na = "\<lparr>mNode = child, mFrame = f0\<rparr>"
  have "\<exists>t'. merge (setFrameCount (onNodeLoaded tm child) f0) = Inr t' \<and>
           mLoadedNodes t' = [] \<and> mUnmergedNodes t' = [?na] \<and>
           mem t' = mem (onNodeLoaded tm child) \<and> mRdMap t' = mRdMap (onNodeLoaded tm child) \<and>
           mTree t' = mTree (onNodeLoaded tm child) \<and>
           mParams t' = mParams (onNodeLoaded tm child)"
    by (rule merge_defer_first [where cn = cn and cid = cid])
      (use idle c absent in \<open>simp_all add: onNodeLoaded_def\<close>)
  then obtain w0 where w0: "merge (setFrameCount (onNodeLoaded tm child) f0) = Inr w0"
    "mLoadedNodes w0 = []" "mUnmergedNodes w0 = [?na]" "mem w0 = mem tm"
    "mRdMap w0 = mRdMap tm" "mTree w0 = mTree tm" "mParams w0 = mParams tm"
    by (auto simp: onNodeLoaded_def)
  have "\<exists>t'. run w0 (map Update rest) = Inr t' \<and> mLoadedNodes t' = [] \<and>
           mUnmergedNodes t' = [?na] \<and> mem t' = mem w0 \<and> mRdMap t' = mRdMap w0 \<and>
           mTree t' = mTree w0 \<and> mParams t' = mParams w0"
    by (rule run_idle [where cn = cn and cid = cid])
      (use w0 c absent grace Cons in simp_all)
  then obtain w1 where w1: "run w0 (map Update rest) = Inr w1"
    "mLoadedNodes w1 = []" "mUnmergedNodes w1 = [?na]" "mem w1 = mem tm"
    "mRdMap w1 = mRdMap tm" "mTree w1 = mTree tm" "mParams w1 = mParams tm"
    using w0 by auto
  let ?t = "onNodeLoaded w1 parent"
  have "mergeable ?t parent = mergeable tm parent"
    by (rule mergeable_cong) (simp_all add: onNodeLoaded_def w1)
  with place(1) have m: "mergeable ?t parent" by simp
  have "\<exists>t'. merge (setFrameCount ?t f1) = Inr t' \<and> linked t' parent child \<and>
           mLoadedNodes t' = [] \<and> mUnmergedNodes t' = []"
    by (rule merge_parent_then_child [where na = ?na and cn = cn and cid = cid and pn = pn])
      (use w1 c p ne place(2) m in \<open>simp_all add: onNodeLoaded_def\<close>)
  then obtain t2 where t2: "merge (setFrameCount ?t f1) = Inr t2" "linked t2 parent child"
    "mLoadedNodes t2 = []" "mUnmergedNodes t2 = []"
    by blast
  from merge_nothing [OF t2(3,4), of f2] obtain t3 where
    t3: "merge (setFrameCount t2 f2) = Inr t3" "mem t3 = mem t2" "mRdMap t3 = mRdMap t2"
    by blast
  from t3(2,3) t2(2) have "linked t3 parent child" by (simp add: linked_cong [of t3 t2])
  with w0(1) w1(1) t2(1) t3(1) Cons show ?thesis
    by (simp add: run_append)
qed


theorem merge_out_of_order_witness:
  "\<exists>tm'. run
       \<lparr>mParams = \<lparr>pruneAge = 3, targetOccupancy = 8, graceFrames = 5\<rparr>,
          mRdMap = Map.empty, mAgeStore = [], mTree = Map.empty,
          mUnmergedNodes = [], mLoadedNodes = [], mFrameCount = 0,
          mem = [Some (newTileNode (Some \<lparr>tb_getLevel = 1, tb_getPatchIdx = 1,
                   tb_getTileId = \<lparr>level = 1, patchIdx = 1\<rparr>, tb_getTypeId = ''dem''\<rparr>)),
                 Some (newTileNode (Some \<lparr>tb_getLevel = 0, tb_getPatchIdx = 0,
                   tb_getTileId = \<lparr>level = 0, patchIdx = 0\<rparr>, tb_getTypeId = ''dem''\<rparr>))]\<rparr>
       (Loaded 0 # map Update [1, 4] @ [Loaded 1, Update 5, Update 6]) = Inr tm' \<and>
     linked tm' 1 0"
proof -
  let ?ct = "\<lparr>tb_getLevel = 1, tb_getPatchIdx = 1,
                   tb_getTileId = \<lparr>level = 1, patchIdx = 1\<rparr>, tb_getTypeId = ''dem''\<rparr>"
  let ?pt = "\<lparr>tb_getLevel = 0, tb_getPatchIdx = 0,
                   tb_getTileId = \<lparr>level = 0, patchIdx = 0\<rparr>, tb_getTypeId = ''dem''\<rparr>"
  let ?tm = "\<lparr>mParams = \<lparr>pruneAge = 3, targetOccupancy = 8, graceFrames = 5\<rparr>,
          mRdMap = Map.empty, mAgeStore = [], mTree = Map.empty,
          mUnmergedNodes = [], mLoadedNodes = [], mFrameCount = 0,
          mem = [Some (newTileNode (Some ?ct)), Some (newTileNode (Some ?pt))]\<rparr>"
  have pid: "parentTileId \<lparr>level = 1, patchIdx = 1\<rparr> = \<lparr>level = 0, patchIdx = 0\<rparr>"
    by (simp add: parentTileId_def drop_bit_eq_div)
  have q: "childIdxOf \<lparr>level = 1, patchIdx = 1\<rparr> = 1"
    by (simp add: childIdxOf_def take_bit_eq_mod)
  show ?thesis
  proof (rule merge_out_of_order [where cn = "newTileNode (Some ?ct)"
        and cid = "\<lparr>level = 1, patchIdx = 1\<rparr>" and pn = "newTileNode (Some ?pt)"])
    show "mLoadedNodes ?tm = []" and "mUnmergedNodes ?tm = []" by simp_all
    show "lookup (mem ?tm) 0 = Some (newTileNode (Some ?ct))" by (simp add: lookup_def)
    show "getTileId (newTileNode (Some ?ct)) = Inr \<lparr>level = 1, patchIdx = 1\<rparr>"
      by (simp add: getTileId_def tile_call_def newTileNode_def)
    show "level \<lparr>level = 1, patchIdx = 1 :: 64 word\<rparr> \<noteq> 0" by simp
    show "lookup (mem ?tm) 1 = Some (newTileNode (Some ?pt))" by (simp add: lookup_def)
    show "getTileId (newTileNode (Some ?pt)) = Inr (parentTileId \<lparr>level = 1, patchIdx = 1\<rparr>)"
      by (simp add: pid getTileId_def tile_call_def newTileNode_def)
    show "getChild (newTileNode (Some ?pt)) (childIdxOf \<lparr>level = 1, patchIdx = 1\<rparr>) = Inr None"
      by (simp add: q getChild_def newTileNode_def)
    show "(1::nat) \<noteq> 0" by simp
    show "mRdMap ?tm (parentTileId \<lparr>level = 1, patchIdx = 1\<rparr>) = None" by simp
    show "mergeable ?tm 1"
      by (simp add: mergeable_def lookup_def getTileId_def tile_call_def newTileNode_def)
    show "mRdMap ?tm (parentTileId (parentTileId \<lparr>level = 1, patchIdx = 1\<rparr>)) \<noteq> Some 0"
      by simp
    show "\<forall>f \<in> set (tl [1, 4]). f - hd [1, 4] \<le> graceFrames (mParams ?tm)" by simp
  qed
qed


end
